theory Spec2Isabelle
  imports Main "HOL-Library.AList" "HOL-Library.Sublist"
begin

section \<open>Python values and exceptions\<close>

text \<open>
  The values \<^verbatim>\<open>json.load\<close> returns: \<^verbatim>\<open>None\<close>, booleans, integers, strings, lists and
  dicts with string keys (in the order of the document). Numbers with a fraction or an
  exponent (Python floats) are outside the model. A Python \<^verbatim>\<open>str\<close> is a \<open>string\<close>,
  one \<open>char\<close> for each character; only its length and concatenation are used.
\<close>

datatype json =
    JNull
  | JBool bool
  | JInt int
  | JStr string
  | JList "json list"
  | JDict "(string \<times> json) list"

text \<open>The exceptions the program can meet, by their Python names.\<close>

datatype error =
    FileNotFoundError
  | IsADirectoryError
  | NotADirectoryError
  | JSONDecodeError
  | KeyError
  | TypeError
  | AttributeError
  | ValueError
  | ZeroDivisionError
  | ConnectionError
  | HTTPError
  | BadZipFile

text \<open>\<^verbatim>\<open>obj[k]\<close> for a string \<open>k\<close>: only a dict can be subscripted with a string.\<close>

fun subscript :: "json \<Rightarrow> string \<Rightarrow> error + json" where
  "subscript (JDict d) k = (case map_of d k of None \<Rightarrow> Inl KeyError | Some v \<Rightarrow> Inr v)"
| "subscript _ k = Inl TypeError"

text \<open>\<^verbatim>\<open>for x in obj\<close>: a list yields its elements, a string its characters (each a string
  of length one), a dict its keys; nothing else is iterable.\<close>

fun iterate :: "json \<Rightarrow> error + json list" where
  "iterate (JList xs) = Inr xs"
| "iterate (JStr s) = Inr (map (\<lambda>c. JStr [c]) s)"
| "iterate (JDict d) = Inr (map (\<lambda>kv. JStr (fst kv)) d)"
| "iterate _ = Inl TypeError"

section \<open>Dicts built by the program\<close>

text \<open>
  The keys a dict of the program can hold are the hashable values; a list or a dict as a
  key raises \<^verbatim>\<open>TypeError\<close>. Python compares \<^verbatim>\<open>True\<close> and \<^verbatim>\<open>1\<close> (and \<^verbatim>\<open>False\<close> and \<^verbatim>\<open>0\<close>)
  equal, with equal hashes, so they are one key.
\<close>

datatype key = KNone | KBool bool | KInt int | KStr string

fun as_key :: "json \<Rightarrow> error + key" where
  "as_key JNull = Inr KNone"
| "as_key (JBool b) = Inr (KBool b)"
| "as_key (JInt i) = Inr (KInt i)"
| "as_key (JStr s) = Inr (KStr s)"
| "as_key (JList xs) = Inl TypeError"
| "as_key (JDict d) = Inl TypeError"

fun key_norm :: "key \<Rightarrow> key" where
  "key_norm (KBool b) = KInt (if b then 1 else 0)"
| "key_norm k = k"

definition py_eq :: "key \<Rightarrow> key \<Rightarrow> bool" where
  "py_eq a b = (key_norm a = key_norm b)"

text \<open>
  An index is a Python dict from keys to strings, in insertion order. \<^verbatim>\<open>d[k] = v\<close>
  replaces the value of an equal key where it stands (the key object first inserted
  stays), and appends a new key at the end.
\<close>

type_synonym index = "(key \<times> string) list"

fun setitem :: "key \<Rightarrow> string \<Rightarrow> index \<Rightarrow> index" where
  "setitem k v [] = [(k, v)]"
| "setitem k v (p # d) = (if py_eq (fst p) k then (fst p, v) # d else p # setitem k v d)"

fun getitem :: "index \<Rightarrow> key \<Rightarrow> string option" where
  "getitem [] k = None"
| "getitem (p # d) k = (if py_eq (fst p) k then Some (snd p) else getitem d k)"

text \<open>\<^verbatim>\<open>d.update(other)\<close>: every item of \<open>other\<close>, in its order, is stored into \<open>d\<close>.\<close>

definition dict_update :: "index \<Rightarrow> index \<Rightarrow> index" where
  "dict_update d other = fold (\<lambda>kv. setitem (fst kv) (snd kv)) other d"

section \<open>Files\<close>

text \<open>
  A file's contents are kept as what the program's readers make of them: a JSON document
  (what \<^verbatim>\<open>json.load\<close> returns on it), a ZIP archive (its members: name and contents), or
  bytes that are neither (an empty or truncated file, say), of the given length. A path is
  the list of its components, so \<^verbatim>\<open>os.path.join(d, name)\<close> is \<open>d @ [name]\<close>, and a name is
  one component. The disk maps paths to nodes; the order of its entries is the order in
  which \<^verbatim>\<open>os.listdir\<close> lists them.
\<close>

datatype content =
    Blob nat
  | Doc json
  | Archive "(string \<times> content) list"

datatype node = File content | Dir

type_synonym pathname = "string list"

type_synonym fs = "(pathname \<times> node) list"

text \<open>\<^verbatim>\<open>open(p)\<close> for reading.\<close>

definition open_read :: "fs \<Rightarrow> pathname \<Rightarrow> error + content" where
  "open_read disk p =
     (case map_of disk p of
        None \<Rightarrow> Inl FileNotFoundError
      | Some Dir \<Rightarrow> Inl IsADirectoryError
      | Some (File c) \<Rightarrow> Inr c)"

fun json_load :: "content \<Rightarrow> error + json" where
  "json_load (Doc j) = Inr j"
| "json_load _ = Inl JSONDecodeError"

section \<open>The index worker: \<^verbatim>\<open>gather_index\<close>\<close>

text \<open>
  Line 144, \<^verbatim>\<open>cik = '0' * (10 - len(cik)) + cik\<close>, on a string: a string times a negative
  number is the empty string.
\<close>

definition normalize_cik :: "string \<Rightarrow> string" where
  "normalize_cik cik = replicate (nat (10 - int (length cik))) CHR ''0'' @ cik"

text \<open>
  The same line on any value: \<^verbatim>\<open>len\<close> of \<^verbatim>\<open>None\<close>, a boolean or an integer raises, and a
  string cannot be concatenated with a list or a dict.
\<close>

fun pad_cik :: "json \<Rightarrow> error + string" where
  "pad_cik (JStr cik) = Inr (normalize_cik cik)"
| "pad_cik _ = Inl TypeError"

text \<open>
  The dict comprehension of line 147, \<^verbatim>\<open>{ticker: cik for ticker in ...}\<close>: it is built
  whole before \<^verbatim>\<open>update\<close> is called, so an unhashable ticker leaves the ticker map
  untouched.
\<close>

fun ticker_dict :: "json list \<Rightarrow> string \<Rightarrow> index \<Rightarrow> error + index" where
  "ticker_dict [] cik acc = Inr acc"
| "ticker_dict (ticker # tickers) cik acc =
     (case as_key ticker of
        Inl e \<Rightarrow> Inl e
      | Inr k \<Rightarrow> ticker_dict tickers cik (setitem k cik acc))"

text \<open>
  The body of the \<^verbatim>\<open>try\<close> (lines 142 to 147) on one opened file. It returns the
  exception it stopped at, if any, and the two maps as they are then: the company map is
  written (line 146) before the tickers are read (line 147), so a record with no usable
  \<^verbatim>\<open>tickers\<close> still leaves its name in the company map.
\<close>

definition index_submission ::
  "content \<Rightarrow> index \<times> index \<Rightarrow> (error + unit) \<times> index \<times> index" where
  "index_submission submission_file maps =
     (let ticker_map = fst maps; company_map = snd maps in
      case json_load submission_file of
        Inl e \<Rightarrow> (Inl e, ticker_map, company_map)
      | Inr submission \<Rightarrow>
      (case subscript submission ''cik'' of
        Inl e \<Rightarrow> (Inl e, ticker_map, company_map)
      | Inr cik0 \<Rightarrow>
      (case pad_cik cik0 of
        Inl e \<Rightarrow> (Inl e, ticker_map, company_map)
      | Inr cik \<Rightarrow>
      (case subscript submission ''name'' of
        Inl e \<Rightarrow> (Inl e, ticker_map, company_map)
      | Inr nm \<Rightarrow>
      (case as_key nm of
        Inl e \<Rightarrow> (Inl e, ticker_map, company_map)
      | Inr k \<Rightarrow>
      (let company_map' = setitem k cik company_map in
       case subscript submission ''tickers'' of
        Inl e \<Rightarrow> (Inl e, ticker_map, company_map')
      | Inr tickers \<Rightarrow>
      (case iterate tickers of
        Inl e \<Rightarrow> (Inl e, ticker_map, company_map')
      | Inr ts \<Rightarrow>
      (case ticker_dict ts cik [] of
        Inl e \<Rightarrow> (Inl e, ticker_map, company_map')
      | Inr d \<Rightarrow> (Inr (), dict_update ticker_map d, company_map')))))))))"

text \<open>
  The loop of lines 139 to 149. \<^verbatim>\<open>open\<close> stands outside the \<^verbatim>\<open>try\<close>: its exception
  leaves the function. Whatever the body of the \<^verbatim>\<open>try\<close> raises is dropped
  (\<^verbatim>\<open>except: pass\<close>) and the loop goes on with the maps as they are.
\<close>

fun gather_loop :: "fs \<Rightarrow> pathname list \<Rightarrow> index \<times> index \<Rightarrow> error + index \<times> index" where
  "gather_loop disk [] maps = Inr maps"
| "gather_loop disk (file_path # files) maps =
     (case open_read disk file_path of
        Inl e \<Rightarrow> Inl e
      | Inr submission_file \<Rightarrow>
          gather_loop disk files (snd (index_submission submission_file maps)))"

definition gather_index :: "fs \<Rightarrow> pathname list \<Rightarrow> error + index \<times> index" where
  "gather_index disk files = gather_loop disk files ([], [])"

section \<open>Operations on the disk\<close>

definition isfile :: "fs \<Rightarrow> pathname \<Rightarrow> bool" where
  "isfile disk p = (case map_of disk p of Some (File c) \<Rightarrow> True | _ \<Rightarrow> False)"

text \<open>The names directly under a directory, in the order of the disk.\<close>

definition children :: "fs \<Rightarrow> pathname \<Rightarrow> string list" where
  "children disk d =
     map (\<lambda>e. last (fst e)) (filter (\<lambda>e. fst e \<noteq> [] \<and> butlast (fst e) = d) disk)"

definition listdir :: "fs \<Rightarrow> pathname \<Rightarrow> error + string list" where
  "listdir disk d =
     (case map_of disk d of
        None \<Rightarrow> Inl FileNotFoundError
      | Some (File c) \<Rightarrow> Inl NotADirectoryError
      | Some Dir \<Rightarrow> Inr (children disk d))"

text \<open>
  \<^verbatim>\<open>open(p, 'w+')\<close> (or \<^verbatim>\<open>'wb+'\<close>), the writes and the close, as one step that leaves the
  file with contents \<open>c\<close>: the path must not be a directory and its parent must be one.
\<close>

definition write_file :: "pathname \<Rightarrow> content \<Rightarrow> fs \<Rightarrow> error + fs" where
  "write_file p c disk =
     (case map_of disk p of
        Some Dir \<Rightarrow> Inl IsADirectoryError
      | _ \<Rightarrow>
        (case map_of disk (butlast p) of
           None \<Rightarrow> Inl FileNotFoundError
         | Some (File x) \<Rightarrow> Inl NotADirectoryError
         | Some Dir \<Rightarrow> Inr (AList.update p (File c) disk)))"

text \<open>
  \<^verbatim>\<open>os.rename(src, dst)\<close> where \<open>src\<close> is a regular file: the program renames only a path
  that \<^verbatim>\<open>os.path.isfile\<close> accepted (line 39). A regular file at \<open>dst\<close> is replaced. A
  directory as the source is outside the model.
\<close>

definition rename_file :: "pathname \<Rightarrow> pathname \<Rightarrow> fs \<Rightarrow> error + fs" where
  "rename_file src dst disk =
     (case map_of disk src of
        None \<Rightarrow> Inl FileNotFoundError
      | Some Dir \<Rightarrow> Inl IsADirectoryError
      | Some (File c) \<Rightarrow>
        (case map_of disk dst of
           Some Dir \<Rightarrow> Inl IsADirectoryError
         | _ \<Rightarrow>
           (case map_of disk (butlast dst) of
              None \<Rightarrow> Inl FileNotFoundError
            | Some (File x) \<Rightarrow> Inl NotADirectoryError
            | Some Dir \<Rightarrow> Inr (AList.update dst (File c) (AList.delete src disk)))))"

section \<open>Fetching and extracting an archive: \<^verbatim>\<open>process_zip\<close>\<close>

text \<open>
  What the server does on one request: no connection (\<^verbatim>\<open>requests.get\<close> raises), a
  status that \<^verbatim>\<open>raise_for_status\<close> refuses, a body that breaks off after some bytes
  were received, or the whole body.
\<close>

datatype response =
    NoConnection
  | BadStatus
  | Truncated content
  | Body content

text \<open>
  Lines 124 to 128. The archive file is opened only after the status was accepted; a body
  that breaks off leaves the bytes written so far and raises.
\<close>

definition download :: "response \<Rightarrow> pathname \<Rightarrow> fs \<Rightarrow> (error + unit) \<times> fs" where
  "download resp zip_path disk =
     (case resp of
        NoConnection \<Rightarrow> (Inl ConnectionError, disk)
      | BadStatus \<Rightarrow> (Inl HTTPError, disk)
      | Truncated c \<Rightarrow>
          (case write_file zip_path c disk of
             Inl e \<Rightarrow> (Inl e, disk)
           | Inr disk' \<Rightarrow> (Inl ConnectionError, disk'))
      | Body c \<Rightarrow>
          (case write_file zip_path c disk of
             Inl e \<Rightarrow> (Inl e, disk)
           | Inr disk' \<Rightarrow> (Inr (), disk')))"

text \<open>
  \<^verbatim>\<open>ZipFile.extractall\<close>: every member is written under the folder, in the archive's
  order (a later member of the same name replaces an earlier one). Members are flat files.
\<close>

fun extractall :: "(string \<times> content) list \<Rightarrow> pathname \<Rightarrow> fs \<Rightarrow> (error + unit) \<times> fs" where
  "extractall [] folder_path disk = (Inr (), disk)"
| "extractall (m # ms) folder_path disk =
     (case write_file (folder_path @ [fst m]) (snd m) disk of
        Inl e \<Rightarrow> (Inl e, disk)
      | Inr disk' \<Rightarrow> extractall ms folder_path disk')"

text \<open>Lines 130 to 132: the archive is opened and extracted only into an empty folder.\<close>

definition extract_if_empty :: "pathname \<Rightarrow> pathname \<Rightarrow> fs \<Rightarrow> (error + unit) \<times> fs" where
  "extract_if_empty zip_path folder_path disk =
     (case listdir disk folder_path of
        Inl e \<Rightarrow> (Inl e, disk)
      | Inr names \<Rightarrow>
          if length names \<le> 0 then
            (case open_read disk zip_path of
               Inl e \<Rightarrow> (Inl e, disk)
             | Inr (Archive ms) \<Rightarrow> extractall ms folder_path disk
             | Inr _ \<Rightarrow> (Inl BadZipFile, disk))
          else (Inr (), disk))"

definition process_zip ::
  "(string \<Rightarrow> response) \<Rightarrow> string \<Rightarrow> pathname \<Rightarrow> pathname \<Rightarrow> fs \<Rightarrow> (error + unit) \<times> fs" where
  "process_zip server url zip_path folder_path disk =
     (case download (server url) zip_path disk of
        (Inl e, disk') \<Rightarrow> (Inl e, disk')
      | (Inr u, disk') \<Rightarrow> extract_if_empty zip_path folder_path disk')"

section \<open>The build: \<^verbatim>\<open>EDGAR.build\<close>\<close>

text \<open>
  The object after \<^verbatim>\<open>__init__\<close>: its root folder and the two maps it holds in memory (a
  persisted index is a flat dict from keys to identifier strings).
\<close>

record edgar =
  path :: pathname
  ticker_cik_map :: index
  company_cik_map :: index

definition company_facts :: "edgar \<Rightarrow> pathname" where
  "company_facts self = path self @ [''company_facts'']"

definition submissions :: "edgar \<Rightarrow> pathname" where
  "submissions self = path self @ [''submissions'']"

definition summaries :: "edgar \<Rightarrow> pathname" where
  "summaries self = path self @ [''summaries'']"

definition ticker_cik_map_path :: "edgar \<Rightarrow> pathname" where
  "ticker_cik_map_path self = path self @ [''ticker.json'']"

definition company_cik_map_path :: "edgar \<Rightarrow> pathname" where
  "company_cik_map_path self = path self @ [''company.json'']"

definition summary_path :: "edgar \<Rightarrow> pathname" where
  "summary_path self = path self @ [''summary.json'']"

definition company_zip :: "edgar \<Rightarrow> pathname" where
  "company_zip self = path self @ [''company_facts.zip'']"

definition submission_zip :: "edgar \<Rightarrow> pathname" where
  "submission_zip self = path self @ [''submissions.zip'']"

definition COMPANY_FACTS_URL :: string where
  "COMPANY_FACTS_URL = ''https://www.sec.gov/Archives/edgar/daily-index/xbrl/companyfacts.zip''"

definition SUBMISSION_URL :: string where
  "SUBMISSION_URL = ''https://www.sec.gov/Archives/edgar/daily-index/bulkdata/submissions.zip''"

text \<open>
  What one run of \<^verbatim>\<open>build\<close> takes from outside the program: the clock
  (\<^verbatim>\<open>datetime.now().isoformat()\<close>), the server, the order in which the workers' futures
  complete (positions in the list of futures), Python's \<^verbatim>\<open>str\<close> of a value that is not
  a string, and the size in bytes that the file system reports for a node.
\<close>

record env =
  now :: string
  server :: "string \<Rightarrow> response"
  completion :: "nat list"
  str_of :: "json \<Rightarrow> string"
  size_of :: "node \<Rightarrow> nat"

text \<open>A value inside an f-string: a string stands for itself.\<close>

definition format_value :: "env \<Rightarrow> json \<Rightarrow> string" where
  "format_value e j = (case j of JStr s \<Rightarrow> s | _ \<Rightarrow> str_of e j)"

text \<open>
  Lines 39 to 41: a summary file is read, and renamed into \<^verbatim>\<open>summaries/\<close> under the
  timestamp it records.
\<close>

definition rotate_summary :: "env \<Rightarrow> edgar \<Rightarrow> fs \<Rightarrow> error + fs" where
  "rotate_summary e self disk =
     (if isfile disk (summary_path self) then
        (case open_read disk (summary_path self) of
           Inl x \<Rightarrow> Inl x
         | Inr c \<Rightarrow>
         (case json_load c of
           Inl x \<Rightarrow> Inl x
         | Inr last_summary \<Rightarrow>
         (case subscript last_summary ''build_timestamp'' of
           Inl x \<Rightarrow> Inl x
         | Inr ts \<Rightarrow>
             rename_file (summary_path self)
               (summaries self @ [''summary_'' @ format_value e ts @ ''.json'']) disk)))
      else Inr disk)"

text \<open>
  \<^verbatim>\<open>range(0, stop, step)\<close> for a positive step, and the slice \<^verbatim>\<open>xs[i:j]\<close> for
  \<open>i \<le> j\<close>; line 49 cuts the file names at every multiple of the chunk size.
\<close>

definition py_range :: "nat \<Rightarrow> nat \<Rightarrow> nat list" where
  "py_range stop step = map (\<lambda>k. k * step) [0..<(stop + step - 1) div step]"

definition slice :: "'a list \<Rightarrow> nat \<Rightarrow> nat \<Rightarrow> 'a list" where
  "slice xs i j = take (j - i) (drop i xs)"

definition chunks :: "'a list \<Rightarrow> nat \<Rightarrow> 'a list list" where
  "chunks file_names chunk_size =
     map (\<lambda>i. slice file_names i (i + chunk_size)) (py_range (length file_names) chunk_size)"

text \<open>
  Lines 47 to 49 up to the list of chunks submitted to the pool: the division raises for
  \<open>n = 0\<close>, the pool refuses a worker count below one, and \<^verbatim>\<open>range\<close> refuses the
  step zero.
\<close>

definition partition_files :: "'a list \<Rightarrow> int \<Rightarrow> error + 'a list list" where
  "partition_files file_names n =
     (if n = 0 then Inl ZeroDivisionError
      else
        let chunk_size = int (length file_names) div n in
        if n \<le> 0 then Inl ValueError
        else if chunk_size = 0 then Inl ValueError
        else Inr (chunks file_names (nat chunk_size)))"

text \<open>
  \<^verbatim>\<open>as_completed\<close>: the futures in the order they complete. An order that is not a
  permutation of the positions stands for the order of submission.
\<close>

definition as_completed :: "nat list \<Rightarrow> 'a list \<Rightarrow> 'a list" where
  "as_completed order futures =
     (if sort order = [0..<length futures] then map (\<lambda>i. futures ! i) order else futures)"

text \<open>
  Lines 50 to 53: \<^verbatim>\<open>future.result()\<close> raises what the worker raised; the maps merged
  before stay merged in memory.
\<close>

fun merge_results ::
  "(error + index \<times> index) list \<Rightarrow> index \<times> index \<Rightarrow> (error + unit) \<times> index \<times> index" where
  "merge_results [] maps = (Inr (), maps)"
| "merge_results (r # rs) maps =
     (case r of
        Inl x \<Rightarrow> (Inl x, maps)
      | Inr tc \<Rightarrow>
          merge_results rs (dict_update (fst maps) (fst tc), dict_update (snd maps) (snd tc)))"

text \<open>Lines 46 to 53: the scan of the submissions folder and the merge into the object.\<close>

definition index_files :: "env \<Rightarrow> int \<Rightarrow> edgar \<Rightarrow> fs \<Rightarrow> (error + unit) \<times> edgar" where
  "index_files e n self disk =
     (case listdir disk (submissions self) of
        Inl x \<Rightarrow> (Inl x, self)
      | Inr names \<Rightarrow>
          let file_names =
            map (\<lambda>file_name. submissions self @ [file_name])
              (filter (\<lambda>file_name. sublist ''.json'' file_name) names)
          in
          (case partition_files file_names n of
             Inl x \<Rightarrow> (Inl x, self)
           | Inr cs \<Rightarrow>
               let futures = map (gather_index disk) cs;
                   r = merge_results (as_completed (completion e) futures)
                         (ticker_cik_map self, company_cik_map self)
               in (fst r, self\<lparr>ticker_cik_map := fst (snd r), company_cik_map := snd (snd r)\<rparr>)))"

text \<open>
  \<^verbatim>\<open>json.dumps\<close> of an index, as the document a later \<^verbatim>\<open>json.load\<close> reads back: keys
  that are not strings are written as JSON writes them, and of two keys written alike the
  later value stays.
\<close>

fun digits :: "nat \<Rightarrow> string" where
  "digits n =
     (if n < 10 then [char_of (48 + n)] else digits (n div 10) @ [char_of (48 + n mod 10)])"

definition key_str :: "key \<Rightarrow> string" where
  "key_str k =
     (case k of
        KNone \<Rightarrow> ''null''
      | KBool b \<Rightarrow> (if b then ''true'' else ''false'')
      | KInt i \<Rightarrow> (if i < 0 then CHR ''-'' # digits (nat (- i)) else digits (nat i))
      | KStr s \<Rightarrow> s)"

definition dumps_index :: "index \<Rightarrow> json" where
  "dumps_index d =
     JDict (fold (\<lambda>kv acc. AList.update (key_str (fst kv)) (JStr (snd kv)) acc) d [])"

text \<open>\<^verbatim>\<open>os.path.getsize\<close>.\<close>

definition getsize :: "env \<Rightarrow> fs \<Rightarrow> pathname \<Rightarrow> error + nat" where
  "getsize e disk p =
     (case map_of disk p of None \<Rightarrow> Inl FileNotFoundError | Some nd \<Rightarrow> Inr (size_of e nd))"

text \<open>Line 64: the sizes of the regular files directly under the root.\<close>

definition total_size :: "env \<Rightarrow> fs \<Rightarrow> pathname \<Rightarrow> nat" where
  "total_size e disk d =
     sum_list (map (\<lambda>p. size_of e (snd p))
       (filter (\<lambda>p. fst p \<noteq> [] \<and> butlast (fst p) = d \<and> snd p \<noteq> Dir) disk))"

text \<open>
  Lines 61 to 76. The summary file is opened (and so emptied) before the sizes are taken;
  the dict is evaluated entry by entry, and written when it is complete.
\<close>

definition write_summary :: "env \<Rightarrow> edgar \<Rightarrow> fs \<Rightarrow> (error + unit) \<times> fs" where
  "write_summary e self disk =
     (case write_file (summary_path self) (Blob 0) disk of
        Inl x \<Rightarrow> (Inl x, disk)
      | Inr disk' \<Rightarrow>
      (case listdir disk' (company_facts self) of
        Inl x \<Rightarrow> (Inl x, disk')
      | Inr company_files \<Rightarrow>
      (case getsize e disk' (company_zip self) of
        Inl x \<Rightarrow> (Inl x, disk')
      | Inr company_zip_size \<Rightarrow>
      (case listdir disk' (submissions self) of
        Inl x \<Rightarrow> (Inl x, disk')
      | Inr submission_files \<Rightarrow>
      (case getsize e disk' (submission_zip self) of
        Inl x \<Rightarrow> (Inl x, disk')
      | Inr submission_zip_size \<Rightarrow>
          let summary = JDict
            [(''build_timestamp'', JStr (now e)),
             (''total_size'', JInt (int (total_size e disk' (path self)))),
             (''company_facts'', JDict
                [(''files'', JInt (int (length company_files))),
                 (''zip_size'', JInt (int company_zip_size))]),
             (''submissions'', JDict
                [(''files'', JInt (int (length submission_files))),
                 (''zip_size'', JInt (int submission_zip_size))])]
          in (Inr (), AList.update (summary_path self) (File (Doc summary)) disk'))))))"

text \<open>
  The part of \<^verbatim>\<open>build\<close> before anything is persisted (lines 39 to 53): the rotation of
  the summary, the two archives, the scan.
\<close>

definition scan_phase :: "env \<Rightarrow> int \<Rightarrow> edgar \<Rightarrow> fs \<Rightarrow> (error + unit) \<times> edgar \<times> fs" where
  "scan_phase e n self disk =
     (case rotate_summary e self disk of
        Inl x \<Rightarrow> (Inl x, self, disk)
      | Inr disk1 \<Rightarrow>
      (case process_zip (server e) COMPANY_FACTS_URL (company_zip self) (company_facts self) disk1 of
        (Inl x, disk2) \<Rightarrow> (Inl x, self, disk2)
      | (Inr u, disk2) \<Rightarrow>
      (case process_zip (server e) SUBMISSION_URL (submission_zip self) (submissions self) disk2 of
        (Inl x, disk3) \<Rightarrow> (Inl x, self, disk3)
      | (Inr u, disk3) \<Rightarrow>
      (case index_files e n self disk3 of
        (r, self') \<Rightarrow> (r, self', disk3)))))"

text \<open>The part that persists (lines 55 to 76): the two indices, then the summary.\<close>

definition persist :: "env \<Rightarrow> edgar \<Rightarrow> fs \<Rightarrow> (error + unit) \<times> fs" where
  "persist e self disk =
     (case write_file (ticker_cik_map_path self) (Doc (dumps_index (ticker_cik_map self))) disk of
        Inl x \<Rightarrow> (Inl x, disk)
      | Inr disk1 \<Rightarrow>
      (case write_file (company_cik_map_path self) (Doc (dumps_index (company_cik_map self))) disk1 of
        Inl x \<Rightarrow> (Inl x, disk1)
      | Inr disk2 \<Rightarrow> write_summary e self disk2))"

definition build :: "env \<Rightarrow> int \<Rightarrow> edgar \<Rightarrow> fs \<Rightarrow> (error + unit) \<times> edgar \<times> fs" where
  "build e n self disk =
     (case scan_phase e n self disk of
        (Inl x, self', disk') \<Rightarrow> (Inl x, self', disk')
      | (Inr u, self', disk') \<Rightarrow>
          (case persist e self' disk' of (r, disk'') \<Rightarrow> (r, self', disk'')))"

section \<open>The accessor: \<^verbatim>\<open>CompanyFacts.get\<close>\<close>

datatype field = Field (form: string) (name: string) (data: json)

text \<open>
  \<^verbatim>\<open>field_name in field_data\<close>: a key of a dict, an element of a list, a substring of a
  string; any other value raises.
\<close>

fun contains :: "json \<Rightarrow> string \<Rightarrow> error + bool" where
  "contains (JDict d) field_name = Inr (field_name \<in> set (map fst d))"
| "contains (JList xs) field_name = Inr (JStr field_name \<in> set xs)"
| "contains (JStr s) field_name = Inr (sublist field_name s)"
| "contains _ field_name = Inl TypeError"

text \<open>The loop of lines 100 to 102 over the items of the facts; falling out of it returns
  \<^verbatim>\<open>None\<close>.\<close>

fun get_loop :: "(string \<times> json) list \<Rightarrow> string \<Rightarrow> error + field option" where
  "get_loop [] field_name = Inr None"
| "get_loop (item # items) field_name =
     (case contains (snd item) field_name of
        Inl x \<Rightarrow> Inl x
      | Inr True \<Rightarrow>
          (case subscript (snd item) field_name of
             Inl x \<Rightarrow> Inl x
           | Inr v \<Rightarrow> Inr (Some (Field (fst item) field_name v)))
      | Inr False \<Rightarrow> get_loop items field_name)"

text \<open>\<^verbatim>\<open>self.__raw_facts['facts'].items()\<close>: only a dict has items.\<close>

definition get :: "json \<Rightarrow> string \<Rightarrow> error + field option" where
  "get raw_facts field_name =
     (case subscript raw_facts ''facts'' of
        Inl x \<Rightarrow> Inl x
      | Inr (JDict groups) \<Rightarrow> get_loop groups field_name
      | Inr _ \<Rightarrow> Inl AttributeError)"

section \<open>Sets of inputs the statements speak of\<close>

text \<open>
  A numeric string is a non-empty string of decimal digits; it has no leading zero when it
  is \<open>''0''\<close> itself or does not start with the digit zero.
\<close>

definition numeric :: "string \<Rightarrow> bool" where
  "numeric s = (s \<noteq> [] \<and> list_all (\<lambda>c. c \<in> set ''0123456789'') s)"

definition no_leading_zero :: "string \<Rightarrow> bool" where
  "no_leading_zero s = (s = ''0'' \<or> hd s \<noteq> CHR ''0'')"

text \<open>
  The \<^verbatim>\<open>cik\<close> string of the record in a file, when the file opens, parses, and holds a
  dict whose \<^verbatim>\<open>cik\<close> is a string.
\<close>

definition content_cik :: "content \<Rightarrow> string option" where
  "content_cik c =
     (case json_load c of
        Inl e \<Rightarrow> None
      | Inr j \<Rightarrow> (case subscript j ''cik'' of Inr (JStr s) \<Rightarrow> Some s | _ \<Rightarrow> None))"

definition record_cik :: "fs \<Rightarrow> pathname \<Rightarrow> string option" where
  "record_cik disk p = (case open_read disk p of Inl e \<Rightarrow> None | Inr c \<Rightarrow> content_cik c)"

text \<open>
  A well-formed submission record: a dict whose \<^verbatim>\<open>cik\<close> and \<^verbatim>\<open>name\<close> are strings and
  whose \<^verbatim>\<open>tickers\<close> is a list of strings.
\<close>

fun is_submission :: "content \<Rightarrow> string \<Rightarrow> string \<Rightarrow> string list \<Rightarrow> bool" where
  "is_submission (Doc (JDict d)) cik nm ts =
     (map_of d ''cik'' = Some (JStr cik) \<and> map_of d ''name'' = Some (JStr nm)
      \<and> map_of d ''tickers'' = Some (JList (map JStr ts)))"
| "is_submission _ cik nm ts = False"

text \<open>What the worker's loop body writes for one path, started on empty maps: the
  ticker entries and the company entries.\<close>

definition contribution :: "fs \<Rightarrow> pathname \<Rightarrow> index \<times> index" where
  "contribution disk p =
     (case open_read disk p of
        Inl e \<Rightarrow> ([], [])
      | Inr c \<Rightarrow> snd (index_submission c ([], [])))"

section \<open>An example: three submission files\<close>

text \<open>
  The three files of the end-to-end scenario: two submission records and one file that is
  not valid JSON. \<open>three_members\<close> are the members of the submissions archive,
  \<open>three_files\<close> a disk that holds them extracted, \<open>three_paths\<close> their paths.
\<close>

definition apple :: content where
  "apple = Doc (JDict [(''cik'', JStr ''320193''), (''name'', JStr ''Apple Inc.''),
                       (''tickers'', JList [JStr ''AAPL''])])"

definition amazon :: content where
  "amazon = Doc (JDict [(''cik'', JStr ''1018724''), (''name'', JStr ''Amazon.com Inc.''),
                        (''tickers'', JList [JStr ''AMZN'', JStr ''AMZN.B''])])"

definition broken :: content where
  "broken = Blob 17"

definition three_members :: "(string \<times> content) list" where
  "three_members =
     [(''CIK0000320193.json'', apple), (''CIK0001018724.json'', amazon),
      (''CIK0000000001.json'', broken)]"

definition three_paths :: "pathname list" where
  "three_paths = map (\<lambda>m. [''data'', ''submissions'', fst m]) three_members"

definition three_files :: fs where
  "three_files =
     [([''data''], Dir), ([''data'', ''submissions''], Dir)]
     @ map (\<lambda>m. ([''data'', ''submissions'', fst m], File (snd m))) three_members"

text \<open>
  An object on the root folder \<open>data\<close> with empty maps, a disk as \<^verbatim>\<open>__init__\<close> leaves it
  on an empty root, a server that answers both URLs with an archive (the submissions
  archive holds the three files), and the rest of a run's surroundings.
\<close>

definition example_edgar :: edgar where
  "example_edgar = \<lparr>path = [''data''], ticker_cik_map = [], company_cik_map = []\<rparr>"

definition apple_facts :: json where
  "apple_facts =
     JDict [(''cik'', JInt 320193), (''entityName'', JStr ''Apple Inc.''),
       (''facts'', JDict
          [(''dei'', JDict
              [(''EntityCommonStockSharesOutstanding'', JDict
                  [(''label'', JStr ''Shares Outstanding''), (''units'', JDict [])])]),
           (''us-gaap'', JDict
              [(''Assets'', JDict
                  [(''label'', JStr ''Assets''),
                   (''description'', JStr ''Sum of the carrying amounts of all assets''),
                   (''units'', JDict [(''USD'', JList [])])])])])]"

definition example_server :: "string \<Rightarrow> response" where
  "example_server url =
     (if url = SUBMISSION_URL then Body (Archive three_members)
      else if url = COMPANY_FACTS_URL then Body (Archive [(''CIK0000320193.json'', Doc apple_facts)])
      else BadStatus)"

definition example_env :: "string \<Rightarrow> env" where
  "example_env ts =
     \<lparr>now = ts, server = example_server, completion = [],
      str_of = (\<lambda>j. ''?''), size_of = (\<lambda>nd. 0)\<rparr>"

definition fresh_disk :: fs where
  "fresh_disk =
     [([''data''], Dir), ([''data'', ''company_facts''], Dir),
      ([''data'', ''submissions''], Dir), ([''data'', ''summaries''], Dir)]"

text \<open>
  An entity record of the company-facts data has a \<^verbatim>\<open>facts\<close> dict whose groups (one for
  each form or taxonomy) are dicts from field names to field data. \<open>facts_groups\<close> gives
  the groups of such a record, in the order of the document; \<open>has_field\<close> says that a
  group holds a field name.
\<close>

fun has_field :: "json \<Rightarrow> string \<Rightarrow> bool" where
  "has_field (JDict d) field_name = (map_of d field_name \<noteq> None)"
| "has_field _ field_name = False"

fun is_dict :: "json \<Rightarrow> bool" where
  "is_dict (JDict d) = True"
| "is_dict _ = False"

definition facts_groups :: "json \<Rightarrow> (string \<times> json) list option" where
  "facts_groups raw_facts =
     (case subscript raw_facts ''facts'' of
        Inr (JDict groups) \<Rightarrow> if list_all (\<lambda>g. is_dict (snd g)) groups then Some groups else None
      | _ \<Rightarrow> None)"

text \<open>
  The fresh disk with the submissions archive downloaded, and the same disk after the
  archive was extracted into the submissions folder.
\<close>

definition zipped_disk :: fs where
  "zipped_disk = fresh_disk @ [([''data'', ''submissions.zip''], File (Archive three_members))]"

definition extracted_disk :: fs where
  "extracted_disk =
     zipped_disk @ map (\<lambda>m. ([''data'', ''submissions'', fst m], File (snd m))) three_members"





text \<open>
  The fresh disk after both archives were fetched and extracted; the object and the index
  files after the scan of the three files; the summary a build of the example writes; the
  disk after one build and after a second one.
\<close>

definition downloaded_disk :: fs where
  "downloaded_disk =
     fresh_disk @
     [([''data'', ''company_facts.zip''], File (Archive [(''CIK0000320193.json'', Doc apple_facts)])),
      ([''data'', ''company_facts'', ''CIK0000320193.json''], File (Doc apple_facts)),
      ([''data'', ''submissions.zip''], File (Archive three_members))]
     @ map (\<lambda>m. ([''data'', ''submissions'', fst m], File (snd m))) three_members"

definition indexed_edgar :: edgar where
  "indexed_edgar =
     \<lparr>path = [''data''],
      ticker_cik_map =
        [(KStr ''AAPL'', ''0000320193''), (KStr ''AMZN'', ''0001018724''),
         (KStr ''AMZN.B'', ''0001018724'')],
      company_cik_map =
        [(KStr ''Apple Inc.'', ''0000320193''), (KStr ''Amazon.com Inc.'', ''0001018724'')]\<rparr>"

definition persisted_indices :: fs where
  "persisted_indices =
     [([''data'', ''ticker.json''],
       File (Doc (JDict [(''AAPL'', JStr ''0000320193''), (''AMZN'', JStr ''0001018724''),
                         (''AMZN.B'', JStr ''0001018724'')]))),
      ([''data'', ''company.json''],
       File (Doc (JDict [(''Apple Inc.'', JStr ''0000320193''),
                         (''Amazon.com Inc.'', JStr ''0001018724'')])))]"

definition example_summary :: "string \<Rightarrow> json" where
  "example_summary ts =
     JDict [(''build_timestamp'', JStr ts), (''total_size'', JInt 0),
            (''company_facts'', JDict [(''files'', JInt 1), (''zip_size'', JInt 0)]),
            (''submissions'', JDict [(''files'', JInt 3), (''zip_size'', JInt 0)])]"

definition built_once :: fs where
  "built_once =
     downloaded_disk @ persisted_indices
     @ [([''data'', ''summary.json''], File (Doc (example_summary ''2024-01-01T09:00:00'')))]"

definition built_twice :: fs where
  "built_twice =
     downloaded_disk @ persisted_indices
     @ [([''data'', ''summaries'', ''summary_2024-01-01T09:00:00.json''],
         File (Doc (example_summary ''2024-01-01T09:00:00''))),
        ([''data'', ''summary.json''], File (Doc (example_summary ''2024-02-01T09:00:00'')))]"



section \<open>Properties\<close>

subsection \<open>Identifier normalization\<close>

lemma normalize_cik_length: "length (normalize_cik cik) = max 10 (length cik)"
  by (simp add: normalize_cik_def)

lemma normalize_cik_idem: "normalize_cik (normalize_cik cik) = normalize_cik cik"
  by (simp add: normalize_cik_def)

lemma normalize_cik_strip:
  "cik \<noteq> [] \<Longrightarrow> hd cik \<noteq> CHR ''0'' \<Longrightarrow> dropWhile (\<lambda>c. c = CHR ''0'') (normalize_cik cik) = cik"
  by (cases cik) (simp_all add: normalize_cik_def dropWhile_append)

lemma normalize_cik_zero: "dropWhile (\<lambda>c. c = CHR ''0'') (normalize_cik ''0'') = []"
  by (simp add: normalize_cik_def dropWhile_append)

lemma normalize_cik_inj:
  assumes "numeric s" "numeric t" "no_leading_zero s" "no_leading_zero t"
    and eq: "normalize_cik s = normalize_cik t"
  shows "s = t"
proof -
  let ?strip = "dropWhile (\<lambda>c. c = CHR ''0'')"
  have ne: "s \<noteq> []" "t \<noteq> []" using assms by (simp_all add: numeric_def)
  have strip: "?strip (normalize_cik u) = u"
    if "u \<noteq> []" "no_leading_zero u" "u \<noteq> ''0''" for u
  proof -
    from that have "hd u \<noteq> CHR ''0''" unfolding no_leading_zero_def by blast
    with that(1) show ?thesis by (rule normalize_cik_strip)
  qed
  show ?thesis
  proof (cases "s = ''0''")
    case s0: True
    show ?thesis
    proof (cases "t = ''0''")
      case True
      with s0 show ?thesis by (simp only:)
    next
      case False
      from strip[OF ne(2) assms(4) False] eq s0 normalize_cik_zero ne(2)
      show ?thesis by metis
    qed
  next
    case s1: False
    show ?thesis
    proof (cases "t = ''0''")
      case True
      from strip[OF ne(1) assms(3) s1] eq True normalize_cik_zero ne(1)
      show ?thesis by metis
    next
      case False
      from strip[OF ne(1) assms(3) s1] strip[OF ne(2) assms(4) False] eq
      show ?thesis by metis
    qed
  qed
qed

text \<open>
  Claim C5. Line 144 on a numeric string of at most ten characters is idempotent and gives
  ten characters; two different numeric strings with no leading zero are padded to
  different strings; and \<open>''320193''\<close> becomes \<open>''0000320193''\<close>.
\<close>

theorem normalize_cik_idempotent_injective:
  "(numeric s \<and> length s \<le> 10 \<longrightarrow>
      normalize_cik (normalize_cik s) = normalize_cik s \<and> length (normalize_cik s) = 10)
   \<and> (numeric s \<and> numeric t \<and> no_leading_zero s \<and> no_leading_zero t \<and> s \<noteq> t \<longrightarrow>
      normalize_cik s \<noteq> normalize_cik t)
   \<and> normalize_cik ''320193'' = ''0000320193''"
proof -
  have "normalize_cik ''320193'' = ''0000320193''"
    by (simp add: normalize_cik_def numeral_eq_Suc)
  then show ?thesis
    using normalize_cik_inj[of s t] by (auto simp: normalize_cik_idem normalize_cik_length)
qed

theorem normalize_cik_idempotent_injective_witness:
  "numeric ''320193'' \<and> numeric ''1018724'' \<and> no_leading_zero ''320193'' \<and> no_leading_zero ''1018724''
   \<and> length ''320193'' \<le> 10
   \<and> normalize_cik (normalize_cik ''320193'') = normalize_cik ''320193''
   \<and> length (normalize_cik ''320193'') = 10
   \<and> normalize_cik ''320193'' \<noteq> normalize_cik ''1018724''"
proof -
  have h: "numeric ''320193''" "numeric ''1018724''" "no_leading_zero ''320193''"
    "no_leading_zero ''1018724''" "length ''320193'' \<le> 10" "''320193'' \<noteq> ''1018724''"
    by (simp_all add: numeric_def no_leading_zero_def)
  from normalize_cik_idempotent_injective[of "''320193''" "''1018724''"] h show ?thesis
    by blast
qed

subsection \<open>Dicts: lookups and values\<close>

lemma py_eq_refl [simp]: "py_eq k k" by (simp add: py_eq_def)
lemma py_eq_KStr [simp]: "py_eq (KStr a) (KStr b) = (a = b)" by (simp add: py_eq_def)

lemma getitem_setitem: "getitem (setitem k v d) k' = (if py_eq k k' then Some v else getitem d k')"
  by (induction d) (auto simp: py_eq_def)

lemma values_setitem: "snd ` set (setitem k v d) \<subseteq> insert v (snd ` set d)"
  by (induction d) auto

lemma getitem_in_values: "getitem d k = Some v \<Longrightarrow> v \<in> snd ` set d"
  by (induction d) (auto split: if_splits)

lemma dict_update_snoc: "dict_update d (other @ [kv]) = setitem (fst kv) (snd kv) (dict_update d other)"
  by (simp add: dict_update_def)

lemma dict_update_Nil [simp]: "dict_update d [] = d"
  by (simp add: dict_update_def)

lemma getitem_dict_update:
  "getitem (dict_update d other) k = (case getitem (dict_update [] other) k of None \<Rightarrow> getitem d k | Some v \<Rightarrow> Some v)"
proof (induction other rule: rev_induct)
  case Nil
  show ?case by simp
next
  case (snoc x xs)
  then show ?case by (simp add: dict_update_snoc getitem_setitem)
qed

lemma getitem_append:
  "getitem (xs @ ys) k = (case getitem xs k of None \<Rightarrow> getitem ys k | Some v \<Rightarrow> Some v)"
  by (induction xs) auto

lemma getitem_dict_update_None:
  "getitem (dict_update d other) k = None \<longleftrightarrow> getitem d k = None \<and> getitem other k = None"
proof (induction other rule: rev_induct)
  case Nil
  show ?case by simp
next
  case (snoc x xs)
  then show ?case
    by (auto simp add: dict_update_snoc getitem_setitem getitem_append split: option.splits)
qed

lemma values_dict_update: "snd ` set (dict_update d other) \<subseteq> snd ` set d \<union> snd ` set other"
proof (induction other rule: rev_induct)
  case Nil
  then show ?case by simp
next
  case (snoc x xs)
  have "snd ` set (dict_update d (xs @ [x])) \<subseteq> insert (snd x) (snd ` set (dict_update d xs))"
    by (simp only: dict_update_snoc values_setitem)
  also have "\<dots> \<subseteq> insert (snd x) (snd ` set d \<union> snd ` set xs)"
    using snoc.IH by blast
  finally show ?case by auto
qed

lemma values_ticker_dict: "ticker_dict ts cik acc = Inr d \<Longrightarrow> snd ` set d \<subseteq> insert cik (snd ` set acc)"
proof (induction ts arbitrary: acc)
  case Nil
  then show ?case by auto
next
  case (Cons t ts)
  from Cons.prems obtain k where k: "as_key t = Inr k" and r: "ticker_dict ts cik (setitem k cik acc) = Inr d"
    by (auto split: sum.splits)
  from Cons.IH[OF r] values_setitem[of k cik acc] show ?case by blast
qed

lemma getitem_ticker_dict_strs:
  "\<exists>d. ticker_dict (map JStr ts) cik acc = Inr d
     \<and> (\<forall>k. getitem d k = (if \<exists>t\<in>set ts. py_eq (KStr t) k then Some cik else getitem acc k))"
proof (induction ts arbitrary: acc)
  case Nil
  show ?case by simp
next
  case (Cons t ts)
  from Cons.IH[of "setitem (KStr t) cik acc"] show ?case
    by (auto simp add: getitem_setitem)
qed
subsection \<open>The body of the worker's loop on one record\<close>

lemma index_submission_merge_fst:
  "getitem (fst (snd (index_submission c m))) k =
     (case getitem (fst (snd (index_submission c ([], [])))) k of
        None \<Rightarrow> getitem (fst m) k | Some v \<Rightarrow> Some v)"
  unfolding index_submission_def Let_def
  by (simp add: getitem_dict_update[of "fst m"] split: sum.splits)

lemma index_submission_merge_snd:
  "getitem (snd (snd (index_submission c m))) k =
     (case getitem (snd (snd (index_submission c ([], [])))) k of
        None \<Rightarrow> getitem (snd m) k | Some v \<Rightarrow> Some v)"
  unfolding index_submission_def Let_def
  by (simp add: getitem_setitem split: sum.splits)

lemma pad_cik_Inr: "pad_cik j = Inr v \<longleftrightarrow> (\<exists>s. j = JStr s \<and> v = normalize_cik s)"
  by (cases j) auto

lemma setitem_valueD: "(a, b) \<in> set (setitem k v d) \<Longrightarrow> b = v \<or> b \<in> snd ` set d"
  using values_setitem[of k v d] by force

lemma dict_update_valueD:
  "(a, b) \<in> set (dict_update d other) \<Longrightarrow> b \<in> snd ` set d \<or> b \<in> snd ` set other"
  using values_dict_update[of d other] by force

lemma ticker_dict_valueD: "ticker_dict ts cik [] = Inr d \<Longrightarrow> (a, b) \<in> set d \<Longrightarrow> b = cik"
  using values_ticker_dict[of ts cik "[]" d] by force

lemma index_submission_values:
  assumes "v \<in> snd ` (set (fst (snd (index_submission c m))) \<union> set (snd (snd (index_submission c m))))"
  shows "v \<in> snd ` (set (fst m) \<union> set (snd m))
         \<or> (\<exists>s. content_cik c = Some s \<and> v = normalize_cik s)"
proof (cases "json_load c")
  case (Inl e)
  with assms show ?thesis by (simp add: index_submission_def)
next
  case j: (Inr j)
  show ?thesis
  proof (cases "subscript j ''cik''")
    case (Inl e)
    with j assms show ?thesis by (simp add: index_submission_def)
  next
    case c0: (Inr c0)
    show ?thesis
    proof (cases "pad_cik c0")
      case (Inl e)
      with j c0 assms show ?thesis by (simp add: index_submission_def)
    next
      case w: (Inr w)
      then obtain s where s: "c0 = JStr s" "w = normalize_cik s"
        by (auto simp: pad_cik_Inr)
      with j c0 have cc: "content_cik c = Some s" by (simp add: content_cik_def)
      from assms j c0 w have "v \<in> snd ` (set (fst m) \<union> set (snd m)) \<or> v = w"
        unfolding index_submission_def Let_def
        by (auto split: sum.splits dest!: setitem_valueD dict_update_valueD
            dest: ticker_dict_valueD) force+
      with cc s show ?thesis by auto
    qed
  qed
qed

lemma gather_loop_values:
  "gather_loop disk files m = Inr m' \<Longrightarrow> v \<in> snd ` (set (fst m') \<union> set (snd m')) \<Longrightarrow>
     v \<in> snd ` (set (fst m) \<union> set (snd m))
     \<or> (\<exists>p\<in>set files. \<exists>cik. record_cik disk p = Some cik \<and> v = normalize_cik cik)"
proof (induction files arbitrary: m)
  case Nil
  then show ?case by simp
next
  case (Cons p files)
  from Cons.prems(1) obtain c where c: "open_read disk p = Inr c"
    and r: "gather_loop disk files (snd (index_submission c m)) = Inr m'"
    by (auto split: sum.splits)
  from Cons.IH[OF r Cons.prems(2)] show ?case
  proof
    assume "v \<in> snd ` (set (fst (snd (index_submission c m))) \<union> set (snd (snd (index_submission c m))))"
    from index_submission_values[OF this] c show ?thesis
      by (auto simp: record_cik_def)
  next
    assume "\<exists>p\<in>set files. \<exists>cik. record_cik disk p = Some cik \<and> v = normalize_cik cik"
    then show ?thesis by auto
  qed
qed

subsection \<open>The values the worker stores\<close>

text \<open>
  Claim C6, as amended. Every value in the two maps that \<^verbatim>\<open>gather_index\<close> returns is the
  \<^verbatim>\<open>cik\<close> string of one of the input records after line 144: it has ten characters when
  that string has at most ten, and is the string itself, longer than ten, otherwise.
\<close>

theorem stored_values_padded:
  assumes "gather_index disk files = Inr (tm, cm)" and "v \<in> snd ` (set tm \<union> set cm)"
  shows "\<exists>p\<in>set files. \<exists>cik. record_cik disk p = Some cik
           \<and> v = normalize_cik cik \<and> length v = max 10 (length cik)"
proof -
  from assms have "gather_loop disk files ([], []) = Inr (tm, cm)"
    and "v \<in> snd ` (set (fst (tm, cm)) \<union> set (snd (tm, cm)))"
    by (simp_all add: gather_index_def)
  from gather_loop_values[OF this]
  obtain p cik where "p \<in> set files" "record_cik disk p = Some cik" "v = normalize_cik cik"
    by auto
  moreover from this have "length v = max 10 (length cik)"
    by (simp only: normalize_cik_length)
  ultimately show ?thesis by blast
qed

text \<open>The definitions a run of the worker on a concrete disk unfolds.\<close>

lemmas eval_gather = gather_index_def index_submission_def open_read_def normalize_cik_def
  dict_update_def py_eq_def Let_def

theorem stored_values_padded_witness:
  "gather_index
     [([''submissions'', ''CIK0000320193.json''],
       File (Doc (JDict [(''cik'', JStr ''320193''), (''name'', JStr ''Apple Inc.''),
                         (''tickers'', JList [JStr ''AAPL''])])))]
     [[''submissions'', ''CIK0000320193.json'']]
   = Inr ([(KStr ''AAPL'', ''0000320193'')], [(KStr ''Apple Inc.'', ''0000320193'')])
   \<and> (\<exists>p\<in>set [[''submissions'', ''CIK0000320193.json'']]. \<exists>cik.
         record_cik
           [([''submissions'', ''CIK0000320193.json''],
             File (Doc (JDict [(''cik'', JStr ''320193''), (''name'', JStr ''Apple Inc.''),
                               (''tickers'', JList [JStr ''AAPL''])])))] p = Some cik
         \<and> ''0000320193'' = normalize_cik cik \<and> length ''0000320193'' = max 10 (length cik))"
proof -
  let ?disk = "[([''submissions'', ''CIK0000320193.json''],
       File (Doc (JDict [(''cik'', JStr ''320193''), (''name'', JStr ''Apple Inc.''),
                         (''tickers'', JList [JStr ''AAPL''])])))]"
  have g: "gather_index ?disk [[''submissions'', ''CIK0000320193.json'']]
      = Inr ([(KStr ''AAPL'', ''0000320193'')], [(KStr ''Apple Inc.'', ''0000320193'')])"
    by (simp add: eval_gather numeral_eq_Suc)
  have v: "''0000320193'' \<in> snd ` (set [(KStr ''AAPL'', ''0000320193'')] \<union> set [(KStr ''Apple Inc.'', ''0000320193'')])"
    by simp
  from stored_values_padded[OF g v] g show ?thesis by blast
qed

text \<open>
  Claim C6 as stated fails: a record whose \<^verbatim>\<open>cik\<close> has eleven characters is stored with
  all eleven.
\<close>

theorem stored_value_eleven_characters:
  "gather_index
     [([''submissions'', ''CIK12345678901.json''],
       File (Doc (JDict [(''cik'', JStr ''12345678901''), (''name'', JStr ''Big Co''),
                         (''tickers'', JList [JStr ''BIG''])])))]
     [[''submissions'', ''CIK12345678901.json'']]
   = Inr ([(KStr ''BIG'', ''12345678901'')], [(KStr ''Big Co'', ''12345678901'')])
   \<and> length ''12345678901'' = 11"
  by (simp add: eval_gather)

subsection \<open>The worker's loop\<close>

lemma gather_loop_returns:
  "\<forall>p\<in>set files. \<exists>c. open_read disk p = Inr c \<Longrightarrow> \<exists>m'. gather_loop disk files m = Inr m'"
proof (induction files arbitrary: m)
  case Nil
  show ?case by simp
next
  case (Cons p files)
  from Cons.prems obtain c where c: "open_read disk p = Inr c" by auto
  from Cons.prems have "\<forall>p\<in>set files. \<exists>c. open_read disk p = Inr c" by simp
  from Cons.IH[OF this, of "snd (index_submission c m)"] c show ?case by simp
qed

lemma gather_loop_raises:
  "p \<in> set files \<Longrightarrow> open_read disk p = Inl e \<Longrightarrow>
     \<exists>e'. gather_loop disk files m = Inl e' \<and> (\<exists>q\<in>set files. open_read disk q = Inl e')"
proof (induction files arbitrary: m)
  case Nil
  then show ?case by simp
next
  case (Cons q files)
  show ?case
  proof (cases "open_read disk q")
    case (Inl x)
    then show ?thesis by auto
  next
    case (Inr c)
    with Cons.prems have "p \<in> set files" by auto
    from Cons.IH[OF this Cons.prems(2)] Inr show ?thesis by auto
  qed
qed

lemma gather_loop_append:
  "gather_loop disk (xs @ ys) m =
     (case gather_loop disk xs m of Inl e \<Rightarrow> Inl e | Inr m' \<Rightarrow> gather_loop disk ys m')"
  by (induction xs arbitrary: m) (auto split: sum.splits)

lemma gather_loop_untouched_snd:
  "gather_loop disk files m = Inr m' \<Longrightarrow>
   \<forall>q\<in>set files. getitem (snd (contribution disk q)) k = None \<Longrightarrow>
   getitem (snd m') k = getitem (snd m) k"
proof (induction files arbitrary: m)
  case Nil
  then show ?case by simp
next
  case (Cons p files)
  from Cons.prems(1) obtain c where c: "open_read disk p = Inr c"
    and r: "gather_loop disk files (snd (index_submission c m)) = Inr m'"
    by (auto split: sum.splits)
  from Cons.prems(2) c have "getitem (snd (snd (index_submission c ([], [])))) k = None"
    by (simp add: contribution_def)
  then have "getitem (snd (snd (index_submission c m))) k = getitem (snd m) k"
    by (simp add: index_submission_merge_snd[of c m])
  with Cons.IH[OF r] Cons.prems(2) show ?case by simp
qed

lemma gather_loop_untouched_fst:
  "gather_loop disk files m = Inr m' \<Longrightarrow>
   \<forall>q\<in>set files. getitem (fst (contribution disk q)) k = None \<Longrightarrow>
   getitem (fst m') k = getitem (fst m) k"
proof (induction files arbitrary: m)
  case Nil
  then show ?case by simp
next
  case (Cons p files)
  from Cons.prems(1) obtain c where c: "open_read disk p = Inr c"
    and r: "gather_loop disk files (snd (index_submission c m)) = Inr m'"
    by (auto split: sum.splits)
  from Cons.prems(2) c have "getitem (fst (snd (index_submission c ([], [])))) k = None"
    by (simp add: contribution_def)
  then have "getitem (fst (snd (index_submission c m))) k = getitem (fst m) k"
    by (simp add: index_submission_merge_fst[of c m])
  with Cons.IH[OF r] Cons.prems(2) show ?case by simp
qed

lemma gather_loop_keeps_keys:
  "gather_loop disk files m = Inr m' \<Longrightarrow>
   (getitem (fst m) k \<noteq> None \<longrightarrow> getitem (fst m') k \<noteq> None)
   \<and> (getitem (snd m) k \<noteq> None \<longrightarrow> getitem (snd m') k \<noteq> None)"
proof (induction files arbitrary: m)
  case Nil
  then show ?case by simp
next
  case (Cons p files)
  from Cons.prems(1) obtain c where c: "open_read disk p = Inr c"
    and r: "gather_loop disk files (snd (index_submission c m)) = Inr m'"
    by (auto split: sum.splits)
  have "getitem (fst m) k \<noteq> None \<longrightarrow> getitem (fst (snd (index_submission c m))) k \<noteq> None"
    and "getitem (snd m) k \<noteq> None \<longrightarrow> getitem (snd (snd (index_submission c m))) k \<noteq> None"
    by (auto simp add: index_submission_merge_fst[of c m] index_submission_merge_snd[of c m]
        split: option.splits)
  with Cons.IH[OF r] show ?case by blast
qed

lemma index_submission_well_formed:
  assumes "is_submission c cik nm ts"
  shows "getitem (snd (snd (index_submission c m))) (KStr nm) = Some (normalize_cik cik)"
    and "t \<in> set ts \<Longrightarrow> getitem (fst (snd (index_submission c m))) (KStr t) = Some (normalize_cik cik)"
proof -
  from assms obtain d where c: "c = Doc (JDict d)"
    and d: "map_of d ''cik'' = Some (JStr cik)" "map_of d ''name'' = Some (JStr nm)"
      "map_of d ''tickers'' = Some (JList (map JStr ts))"
  proof (cases c)
    case (Doc j)
    with assms show ?thesis by (cases j) (auto intro: that)
  qed (use assms in auto)
  from getitem_ticker_dict_strs[of ts "normalize_cik cik" "[]"]
  obtain td where td: "ticker_dict (map JStr ts) (normalize_cik cik) [] = Inr td"
    and get: "\<And>k. getitem td k = (if \<exists>t\<in>set ts. py_eq (KStr t) k then Some (normalize_cik cik) else getitem [] k)"
    by blast
  have res: "snd (index_submission c m)
      = (dict_update (fst m) td, setitem (KStr nm) (normalize_cik cik) (snd m))"
    using c d td by (simp add: index_submission_def)
  show "getitem (snd (snd (index_submission c m))) (KStr nm) = Some (normalize_cik cik)"
    by (simp add: res getitem_setitem)
  show "getitem (fst (snd (index_submission c m))) (KStr t) = Some (normalize_cik cik)"
    if t: "t \<in> set ts"
  proof -
    from t get[of "KStr t"] have "getitem td (KStr t) \<noteq> None" by auto
    then have "getitem (dict_update [] td) (KStr t) \<noteq> None"
      by (simp add: getitem_dict_update_None)
    then obtain v where v: "getitem (dict_update [] td) (KStr t) = Some v" by auto
    from getitem_in_values[OF v] values_dict_update[of "[]" td] values_ticker_dict[OF td]
    have "v = normalize_cik cik" by auto
    with v show ?thesis by (simp add: res getitem_dict_update[of "fst m"])
  qed
qed

text \<open>
  The worker alone. When every path of the list opens, \<^verbatim>\<open>gather_index\<close> returns, whatever the
  files hold. Every well-formed record of the list then has its name bound in the company
  map and each of its tickers bound in the ticker map; the value is the record's own
  padded identifier unless a later file of the list writes the same key (a later entry
  for a key overwrites an earlier one).
\<close>

theorem malformed_records_are_skipped:
  assumes "\<forall>p\<in>set files. \<exists>c. open_read disk p = Inr c"
  shows "\<exists>tm cm. gather_index disk files = Inr (tm, cm) \<and>
     (\<forall>i c cik nm ts.
        i < length files \<and> open_read disk (files ! i) = Inr c \<and> is_submission c cik nm ts \<longrightarrow>
        getitem cm (KStr nm) \<noteq> None
        \<and> ((\<forall>q\<in>set (drop (Suc i) files). getitem (snd (contribution disk q)) (KStr nm) = None)
              \<longrightarrow> getitem cm (KStr nm) = Some (normalize_cik cik))
        \<and> (\<forall>t\<in>set ts. getitem tm (KStr t) \<noteq> None
              \<and> ((\<forall>q\<in>set (drop (Suc i) files). getitem (fst (contribution disk q)) (KStr t) = None)
                    \<longrightarrow> getitem tm (KStr t) = Some (normalize_cik cik))))"
proof -
  from gather_loop_returns[OF assms, of "([], [])"]
  obtain tm cm where g: "gather_loop disk files ([], []) = Inr (tm, cm)" by (cases) auto
  have "getitem cm (KStr nm) \<noteq> None
        \<and> ((\<forall>q\<in>set (drop (Suc i) files). getitem (snd (contribution disk q)) (KStr nm) = None)
              \<longrightarrow> getitem cm (KStr nm) = Some (normalize_cik cik))
        \<and> (\<forall>t\<in>set ts. getitem tm (KStr t) \<noteq> None
              \<and> ((\<forall>q\<in>set (drop (Suc i) files). getitem (fst (contribution disk q)) (KStr t) = None)
                    \<longrightarrow> getitem tm (KStr t) = Some (normalize_cik cik)))"
    if i: "i < length files" and c: "open_read disk (files ! i) = Inr c"
      and wf: "is_submission c cik nm ts" for i c cik nm ts
  proof -
    let ?pre = "take i files" and ?post = "drop (Suc i) files"
    have split: "files = ?pre @ (files ! i # ?post)" using i by (rule id_take_nth_drop)
    from g split have "(case gather_loop disk ?pre ([], []) of Inl e \<Rightarrow> Inl e
        | Inr m' \<Rightarrow> gather_loop disk (files ! i # ?post) m') = Inr (tm, cm)"
      by (metis gather_loop_append)
    then obtain m1 where "gather_loop disk (files ! i # ?post) m1 = Inr (tm, cm)"
      by (auto split: sum.splits)
    with c have post: "gather_loop disk ?post (snd (index_submission c m1)) = Inr (tm, cm)"
      by simp
    let ?m2 = "snd (index_submission c m1)"
    have nm: "getitem (snd ?m2) (KStr nm) = Some (normalize_cik cik)"
      and tk: "\<And>t. t \<in> set ts \<Longrightarrow> getitem (fst ?m2) (KStr t) = Some (normalize_cik cik)"
      using index_submission_well_formed(1)[OF wf, where m=m1]
        index_submission_well_formed(2)[OF wf, where m=m1] by blast+
    from gather_loop_keeps_keys[OF post, of "KStr nm"] nm
    have 1: "getitem cm (KStr nm) \<noteq> None" by simp
    from gather_loop_untouched_snd[OF post, of "KStr nm"] nm
    have 2: "(\<forall>q\<in>set ?post. getitem (snd (contribution disk q)) (KStr nm) = None)
              \<longrightarrow> getitem cm (KStr nm) = Some (normalize_cik cik)" by simp
    have 3: "getitem tm (KStr t) \<noteq> None
              \<and> ((\<forall>q\<in>set ?post. getitem (fst (contribution disk q)) (KStr t) = None)
                    \<longrightarrow> getitem tm (KStr t) = Some (normalize_cik cik))" if "t \<in> set ts" for t
      using gather_loop_keeps_keys[OF post, of "KStr t"] gather_loop_untouched_fst[OF post, of "KStr t"]
        tk[OF that] by simp
    from 1 2 3 show ?thesis by blast
  qed
  with g show ?thesis unfolding gather_index_def by blast
qed

text \<open>The definitions of the example.\<close>

lemmas eval_three = three_files_def three_paths_def three_members_def apple_def amazon_def
  broken_def

text \<open>The worker on the three files of the scenario: the maps of the scenario, the
  invalid file skipped.\<close>

lemma gather_index_three_files:
  "gather_index three_files three_paths
     = Inr ([(KStr ''AAPL'', ''0000320193''), (KStr ''AMZN'', ''0001018724''),
             (KStr ''AMZN.B'', ''0001018724'')],
            [(KStr ''Apple Inc.'', ''0000320193''), (KStr ''Amazon.com Inc.'', ''0001018724'')])"
  by (simp add: eval_three eval_gather numeral_eq_Suc)

theorem malformed_records_are_skipped_witness:
  "\<exists>tm cm. gather_index three_files three_paths = Inr (tm, cm)
     \<and> getitem cm (KStr ''Apple Inc.'') = Some ''0000320193''
     \<and> getitem tm (KStr ''AAPL'') = Some ''0000320193''"
proof -
  have opens: "\<forall>p\<in>set three_paths. \<exists>c. open_read three_files p = Inr c"
    by (simp add: eval_three open_read_def)
  from malformed_records_are_skipped[OF opens] obtain tm cm
    where g: "gather_index three_files three_paths = Inr (tm, cm)"
      and all: "\<And>i c cik nm ts.
        i < length three_paths \<and> open_read three_files (three_paths ! i) = Inr c
          \<and> is_submission c cik nm ts \<Longrightarrow>
        getitem cm (KStr nm) \<noteq> None
        \<and> ((\<forall>q\<in>set (drop (Suc i) three_paths).
               getitem (snd (contribution three_files q)) (KStr nm) = None)
              \<longrightarrow> getitem cm (KStr nm) = Some (normalize_cik cik))
        \<and> (\<forall>t\<in>set ts. getitem tm (KStr t) \<noteq> None
              \<and> ((\<forall>q\<in>set (drop (Suc i) three_paths).
                     getitem (fst (contribution three_files q)) (KStr t) = None)
                    \<longrightarrow> getitem tm (KStr t) = Some (normalize_cik cik)))"
    by blast
  have h: "0 < length three_paths \<and> open_read three_files (three_paths ! 0) = Inr apple
      \<and> is_submission apple ''320193'' ''Apple Inc.'' [''AAPL'']"
    by (simp add: eval_three open_read_def)
  have later: "\<forall>q\<in>set (drop (Suc 0) three_paths).
      getitem (snd (contribution three_files q)) (KStr ''Apple Inc.'') = None
      \<and> getitem (fst (contribution three_files q)) (KStr ''AAPL'') = None"
    by (simp add: eval_three contribution_def eval_gather)
  have n: "normalize_cik ''320193'' = ''0000320193''"
    by (simp add: normalize_cik_def numeral_eq_Suc)
  from all[OF h] later n g show ?thesis by auto
qed

subsection \<open>The chunks of line 49\<close>

lemma chunks_eq:
  "chunks xs q = map (\<lambda>k. take q (drop (k * q) xs)) [0..<(length xs + q - 1) div q]"
  by (simp add: chunks_def py_range_def slice_def comp_def)

lemma length_chunks: "length (chunks xs q) = (length xs + q - 1) div q"
  by (simp add: chunks_eq)

lemma nth_chunks: "i < length (chunks xs q) \<Longrightarrow> chunks xs q ! i = take q (drop (i * q) xs)"
  by (simp add: chunks_eq)

lemma concat_take_chunks:
  "concat (map (\<lambda>k. take q (drop (k * q) xs)) [0..<m]) = take (m * q) xs"
proof (induction m)
  case 0
  show ?case by simp
next
  case (Suc m)
  have "take (m * q) xs @ take q (drop (m * q) xs) = take (m * q + q) xs"
    by (simp add: take_add)
  with Suc show ?case by (simp add: add.commute)
qed

lemma ceil_div_covers: "0 < q \<Longrightarrow> (l::nat) \<le> ((l + q - 1) div q) * q"
proof -
  assume q: "0 < q"
  have "l + q - 1 < ((l + q - 1) div q) * q + q"
    using q by (metis add.commute dividend_less_div_times)
  with q show ?thesis by simp
qed

lemma concat_chunks: "0 < q \<Longrightarrow> concat (chunks xs q) = xs"
  using ceil_div_covers[of q "length xs"] by (simp add: chunks_eq concat_take_chunks)

lemma length_nth_chunks:
  assumes "0 < q" "Suc i < length (chunks xs q)"
  shows "length (chunks xs q ! i) = q"
proof -
  from assms(2) have "Suc (Suc i) \<le> (length xs + q - 1) div q"
    by (simp add: length_chunks)
  then have "Suc (Suc i) * q \<le> length xs + q - 1" using assms(1)
    by (simp add: less_eq_div_iff_mult_less_eq)
  then have "i * q + q + q \<le> length xs + q - 1" by (simp add: algebra_simps)
  with assms(1) have "i * q + q \<le> length xs" by linarith
  with assms(2) show ?thesis by (simp add: nth_chunks)
qed

lemma length_last_chunks:
  assumes "0 < q" "xs \<noteq> []"
  shows "0 < length (last (chunks xs q)) \<and> length (last (chunks xs q)) \<le> q"
proof -
  let ?m = "(length xs + q - 1) div q"
  from assms have "q \<le> length xs + q - 1" by (cases xs) simp_all
  with assms(1) have "0 < ?m" by (simp add: div_greater_zero_iff)
  then obtain k where k: "?m = Suc k" by (cases ?m) simp_all
  then have ne: "chunks xs q \<noteq> []" using length_chunks[of xs q] by auto
  then have l: "last (chunks xs q) = take q (drop (k * q) xs)"
    using k by (simp add: last_conv_nth length_chunks nth_chunks)
  have "?m * q \<le> length xs + q - 1" by simp
  with k have "k * q + q \<le> length xs + q - 1" by (simp add: algebra_simps)
  with assms(1) have "k * q < length xs" by linarith
  with assms(1) show ?thesis by (simp add: l)
qed

lemma count_chunks:
  assumes "0 < n" "n \<le> l"
  shows "n \<le> (l + l div n - 1) div (l div n)"
    and "(l + l div n - 1) div (l div n) = n \<longleftrightarrow> n dvd (l::nat)"
proof -
  let ?q = "l div n" and ?r = "l mod n"
  from assms have q: "0 < ?q" by (simp add: div_greater_zero_iff)
  have l: "l = n * ?q + ?r" by simp
  have "(l + ?q - 1) = n * ?q + (?r + ?q - 1)" using q by (simp)
  then have "(l + ?q - 1) div ?q = n + (?r + ?q - 1) div ?q"
    using q by (metis div_mult_self2 add.commute less_numeral_extra(3) mult.commute) 
  moreover have "(?r + ?q - 1) div ?q = 0 \<longleftrightarrow> ?r = 0"
    using q by (auto simp: div_eq_0_iff)
  ultimately show "n \<le> (l + l div n - 1) div (l div n)"
    and "(l + l div n - 1) div (l div n) = n \<longleftrightarrow> n dvd l"
    by (auto simp: dvd_eq_mod_eq_0)
qed

lemma partition_files_Inr:
  assumes "1 \<le> n" "n \<le> int (length xs)"
  shows "partition_files xs n = Inr (chunks xs (length xs div nat n))"
    and "0 < length xs div nat n"
proof -
  from assms have n: "0 < nat n" "nat n \<le> length xs" by simp_all
  have d: "nat (int (length xs) div n) = length xs div nat n"
    using assms by (simp add: nat_div_distrib)
  from n show q: "0 < length xs div nat n" by (simp add: div_greater_zero_iff)
  with d have "int (length xs) div n \<noteq> 0" by (metis nat_0 less_numeral_extra(3))
  with assms d show "partition_files xs n = Inr (chunks xs (length xs div nat n))"
    by (simp add: partition_files_def Let_def)
qed

text \<open>
  Claim C3, as amended. For a worker count \<open>n \<ge> 1\<close> and at least \<open>n\<close> file names, lines 47
  to 49 cut the list into contiguous chunks of \<open>len div n\<close> names each, the last one
  holding what is left (at least one name, at most \<open>len div n\<close>); the chunks concatenate to
  the list; there are at least \<open>n\<close> chunks, and exactly \<open>n\<close> just when \<open>n\<close> divides the
  length.
\<close>

theorem partition_files_contiguous:
  assumes "1 \<le> n" and "n \<le> int (length file_names)"
  shows "\<exists>cs. partition_files file_names n = Inr cs \<and> concat cs = file_names
    \<and> (\<forall>i. i < length cs \<longrightarrow>
          cs ! i = take (length file_names div nat n) (drop (i * (length file_names div nat n)) file_names))
    \<and> (\<forall>i. Suc i < length cs \<longrightarrow> length (cs ! i) = length file_names div nat n)
    \<and> 0 < length (last cs) \<and> length (last cs) \<le> length file_names div nat n
    \<and> nat n \<le> length cs \<and> (length cs = nat n \<longleftrightarrow> nat n dvd length file_names)"
proof -
  let ?q = "length file_names div nat n"
  let ?cs = "chunks file_names ?q"
  note p = partition_files_Inr[OF assms]
  from assms have n: "0 < nat n" "nat n \<le> length file_names" by simp_all
  then have ne: "file_names \<noteq> []" by auto
  have "concat ?cs = file_names" using p(2) by (rule concat_chunks)
  moreover have "\<forall>i. i < length ?cs \<longrightarrow> ?cs ! i = take ?q (drop (i * ?q) file_names)"
    by (simp add: nth_chunks)
  moreover have "\<forall>i. Suc i < length ?cs \<longrightarrow> length (?cs ! i) = ?q"
    using length_nth_chunks[OF p(2)] by blast
  moreover have "0 < length (last ?cs) \<and> length (last ?cs) \<le> ?q"
    using p(2) ne by (rule length_last_chunks)
  moreover have "nat n \<le> length ?cs" "length ?cs = nat n \<longleftrightarrow> nat n dvd length file_names"
    using count_chunks[OF n] by (simp_all only: length_chunks)
  ultimately show ?thesis using p(1) by blast
qed

theorem partition_files_contiguous_witness:
  "\<exists>cs. partition_files [0, 1, 2, 3, 4, 5, 6, 7, 8, 9 :: nat] 3 = Inr cs
     \<and> concat cs = [0, 1, 2, 3, 4, 5, 6, 7, 8, 9]
     \<and> 0 < length (last cs) \<and> length (last cs) \<le> 3 \<and> 3 \<le> length cs \<and> length cs \<noteq> 3"
proof -
  let ?xs = "[0, 1, 2, 3, 4, 5, 6, 7, 8, 9 :: nat]"
  have h: "(1::int) \<le> 3" "(3::int) \<le> int (length ?xs)"
    by simp_all
  from partition_files_contiguous[OF h] obtain cs where
    a: "partition_files ?xs 3 = Inr cs" and b: "concat cs = ?xs"
    and c: "0 < length (last cs)" and d: "length (last cs) \<le> length ?xs div nat 3"
    and e: "nat 3 \<le> length cs" and f: "length cs = nat 3 \<longleftrightarrow> nat 3 dvd length ?xs"
    by blast
  from d have d': "length (last cs) \<le> 3" by simp
  from e have e': "3 \<le> length cs" by simp
  have len: "length ?xs = 10" by simp
  from f have f': "length cs \<noteq> 3" unfolding len by simp
  from a b c d' e' f' show ?thesis by blast
qed

text \<open>
  Claim C3 as stated fails: ten file names and three workers give four chunks, the
  remainder in a chunk of its own.
\<close>

theorem partition_files_ten_files_three_workers:
  "partition_files [0, 1, 2, 3, 4, 5, 6, 7, 8, 9 :: nat] 3
     = Inr [[0, 1, 2], [3, 4, 5], [6, 7, 8], [9]]"
  by (simp add: partition_files_def chunks_def py_range_def slice_def upt_conv_Cons)

subsection \<open>The scan of lines 46 to 53\<close>

lemma set_as_completed: "set (as_completed order futures) = set futures"
proof (cases "sort order = [0..<length futures]")
  case True
  then have "set order = {0..<length futures}"
    by (metis set_sort atLeastLessThan_upt)
  then have "set (map (\<lambda>i. futures ! i) order) = set futures"
    using nth_image[of "length futures" futures] by simp
  with True show ?thesis by (simp add: as_completed_def)
next
  case False
  then show ?thesis by (simp add: as_completed_def)
qed

lemma merge_results_raises:
  "Inl e \<in> set rs \<Longrightarrow> \<exists>e'. fst (merge_results rs m) = Inl e'"
proof (induction rs arbitrary: m)
  case Nil
  then show ?case by simp
next
  case (Cons r rs)
  show ?case
  proof (cases r)
    case (Inl x)
    then show ?thesis by simp
  next
    case (Inr tc)
    with Cons.prems have "Inl e \<in> set rs" by auto
    from Cons.IH[OF this] Inr show ?thesis by simp
  qed
qed

lemma partition_files_concat: "partition_files xs n = Inr cs \<Longrightarrow> concat cs = xs"
proof -
  assume a: "partition_files xs n = Inr cs"
  then have n: "0 < n" and q: "int (length xs) div n \<noteq> 0"
    and cs: "cs = chunks xs (nat (int (length xs) div n))"
    by (auto simp: partition_files_def Let_def split: if_splits)
  from n have "0 \<le> int (length xs) div n" by (simp add: pos_imp_zdiv_nonneg_iff)
  with q have "0 < nat (int (length xs) div n)" by simp
  with cs show ?thesis by (simp add: concat_chunks)
qed

lemma index_files_raises:
  assumes "listdir disk (submissions self) = Inr names" and "nm \<in> set names"
    and "sublist ''.json'' nm" and "open_read disk (submissions self @ [nm]) = Inl e"
  shows "\<exists>e'. fst (index_files ev n self disk) = Inl e'"
proof -
  let ?file_names = "map (\<lambda>file_name. submissions self @ [file_name])
              (filter (\<lambda>file_name. sublist ''.json'' file_name) names)"
  have p: "submissions self @ [nm] \<in> set ?file_names" using assms(2,3) by auto
  show ?thesis
  proof (cases "partition_files ?file_names n")
    case (Inl x)
    with assms(1) show ?thesis by (simp add: index_files_def)
  next
    case (Inr cs)
    from partition_files_concat[OF Inr] p obtain c where c: "c \<in> set cs"
      and pc: "submissions self @ [nm] \<in> set c" by (metis set_concat UN_E)
    from gather_loop_raises[OF pc assms(4), of "([], [])"]
    obtain e' where "gather_index disk c = Inl e'" by (auto simp: gather_index_def)
    with c have "Inl e' \<in> set (map (gather_index disk) cs)" by force
    then have "Inl e' \<in> set (as_completed (completion ev) (map (gather_index disk) cs))"
      by (simp only: set_as_completed)
    from merge_results_raises[OF this] assms(1) Inr show ?thesis
      by (simp add: index_files_def Let_def)
  qed
qed

text \<open>
  Claim C9. A path of the worker's list that cannot be opened makes \<^verbatim>\<open>gather_index\<close>
  raise (the exception of a path of the list that does not open), while a list whose paths
  all open never raises, whatever the files hold. In the build, one entry of the
  submissions folder with \<^verbatim>\<open>.json\<close> in its name that cannot be opened makes the whole
  scan raise.
\<close>

theorem unopenable_path_aborts_scan:
  "(p \<in> set files \<and> open_read disk p = Inl e \<longrightarrow>
      (\<exists>e'. gather_index disk files = Inl e' \<and> (\<exists>q\<in>set files. open_read disk q = Inl e')))
   \<and> ((\<forall>q\<in>set files. \<exists>c. open_read disk q = Inr c) \<longrightarrow> (\<exists>m. gather_index disk files = Inr m))
   \<and> (listdir disk (submissions self) = Inr names \<and> nm \<in> set names \<and> sublist ''.json'' nm
        \<and> open_read disk (submissions self @ [nm]) = Inl e \<longrightarrow>
      (\<exists>e'. fst (index_files ev n self disk) = Inl e'))"
  using gather_loop_raises[of p files disk e "([], [])"]
    gather_loop_returns[of files disk "([], [])"]
    index_files_raises[of disk self names nm e ev n]
  unfolding gather_index_def by blast

theorem unopenable_path_aborts_scan_witness:
  "(\<exists>e'. gather_index three_files ([''data'', ''submissions'', ''absent.json''] # three_paths) = Inl e')
   \<and> (\<exists>m. gather_index three_files three_paths = Inr m)
   \<and> (\<exists>e'. fst (index_files (example_env ''t'') 1 example_edgar
               (three_files @ [([''data'', ''submissions'', ''old.json''], Dir)])) = Inl e')"
proof -
  let ?absent = "[''data'', ''submissions'', ''absent.json'']"
  let ?disk = "three_files @ [([''data'', ''submissions'', ''old.json''], Dir)]"
  have a: "?absent \<in> set (?absent # three_paths) \<and> open_read three_files ?absent = Inl FileNotFoundError"
    by (simp add: eval_three open_read_def)
  have b: "\<forall>q\<in>set three_paths. \<exists>c. open_read three_files q = Inr c"
    by (simp add: eval_three open_read_def)
  have c: "listdir ?disk (submissions example_edgar)
        = Inr [''CIK0000320193.json'', ''CIK0001018724.json'', ''CIK0000000001.json'', ''old.json'']
      \<and> ''old.json'' \<in> set [''CIK0000320193.json'', ''CIK0001018724.json'', ''CIK0000000001.json'', ''old.json'']
      \<and> sublist ''.json'' ''old.json''
      \<and> open_read ?disk (submissions example_edgar @ [''old.json'']) = Inl IsADirectoryError"
    by (simp add: eval_three open_read_def listdir_def children_def submissions_def
        example_edgar_def sublist_code(3))
  from unopenable_path_aborts_scan[of ?absent "?absent # three_paths" three_files FileNotFoundError]
    a have 1: "\<exists>e'. gather_index three_files (?absent # three_paths) = Inl e'" by blast
  from unopenable_path_aborts_scan[of _ three_paths three_files] b
  have 2: "\<exists>m. gather_index three_files three_paths = Inr m" by blast
  from unopenable_path_aborts_scan[of _ _ ?disk IsADirectoryError example_edgar _ "''old.json''"
      "example_env ''t''" 1] c
  have 3: "\<exists>e'. fst (index_files (example_env ''t'') 1 example_edgar ?disk) = Inl e'" by blast
  from 1 2 3 show ?thesis by blast
qed

subsection \<open>The accessor \<^verbatim>\<open>CompanyFacts.get\<close>\<close>

lemma contains_dict: "is_dict j \<Longrightarrow> contains j field_name = Inr (has_field j field_name)"
  by (cases j) (auto simp: map_of_eq_None_iff)

lemma get_loop_absent:
  "list_all (\<lambda>g. is_dict (snd g)) groups \<Longrightarrow> \<forall>g\<in>set groups. \<not> has_field (snd g) field_name \<Longrightarrow>
     get_loop groups field_name = Inr None"
  by (induction groups) (simp_all add: contains_dict)

lemma get_loop_first:
  assumes "list_all (\<lambda>g. is_dict (snd g)) pre" "\<forall>g\<in>set pre. \<not> has_field (snd g) field_name"
    and "map_of d field_name = Some v"
  shows "get_loop (pre @ (frm, JDict d) # post) field_name = Inr (Some (Field frm field_name v))"
  using assms
proof (induction pre)
  case Nil
  then have "field_name \<in> fst ` set d" by (metis map_of_eq_None_iff option.distinct(1))
  with Nil show ?case by simp
next
  case (Cons g pre)
  then show ?case by (simp add: contains_dict)
qed

text \<open>
  Claim C10. On an entity record, \<^verbatim>\<open>get\<close> returns \<^verbatim>\<open>None\<close> (and does not raise) when no
  group of the facts holds the field name; otherwise it returns the field built from the
  first group, in the order of the document, that holds it: that group's name, the field
  name, and the group's data for it.
\<close>

theorem get_first_group_or_none:
  assumes "facts_groups raw_facts = Some groups"
  shows "((\<forall>g\<in>set groups. \<not> has_field (snd g) field_name) \<longrightarrow> get raw_facts field_name = Inr None)
    \<and> (groups = pre @ (frm, JDict d) # post \<and> (\<forall>g\<in>set pre. \<not> has_field (snd g) field_name)
          \<and> map_of d field_name = Some v \<longrightarrow>
        get raw_facts field_name = Inr (Some (Field frm field_name v)))"
proof -
  from assms have s: "subscript raw_facts ''facts'' = Inr (JDict groups)"
    and all: "list_all (\<lambda>g. is_dict (snd g)) groups"
    by (auto simp: facts_groups_def split: sum.splits json.splits if_splits)
  from s have g: "get raw_facts field_name = get_loop groups field_name"
    by (simp add: get_def)
  show ?thesis
  proof (intro conjI impI)
    assume "\<forall>g\<in>set groups. \<not> has_field (snd g) field_name"
    with all show "get raw_facts field_name = Inr None"
      by (simp only: g get_loop_absent)
  next
    assume a: "groups = pre @ (frm, JDict d) # post \<and> (\<forall>g\<in>set pre. \<not> has_field (snd g) field_name)
          \<and> map_of d field_name = Some v"
    with all have "list_all (\<lambda>g. is_dict (snd g)) pre" by simp
    from get_loop_first[OF this, of field_name d v frm post] a g
    show "get raw_facts field_name = Inr (Some (Field frm field_name v))"
      by simp
  qed
qed

text \<open>A loaded document that is no entity record, having no \<^verbatim>\<open>facts\<close>, raises at
  line 100.\<close>

lemma get_without_facts: "get (JDict [(''cik'', JInt 320193)]) field_name = Inl KeyError"
  by (simp add: get_def)

theorem get_first_group_or_none_witness:
  "get apple_facts ''Liabilities'' = Inr None
   \<and> get apple_facts ''Assets''
       = Inr (Some (Field ''us-gaap'' ''Assets''
           (JDict [(''label'', JStr ''Assets''),
                   (''description'', JStr ''Sum of the carrying amounts of all assets''),
                   (''units'', JDict [(''USD'', JList [])])])))"
proof -
  let ?dei = "(''dei'', JDict
              [(''EntityCommonStockSharesOutstanding'', JDict
                  [(''label'', JStr ''Shares Outstanding''), (''units'', JDict [])])])"
  let ?assets = "JDict [(''label'', JStr ''Assets''),
                   (''description'', JStr ''Sum of the carrying amounts of all assets''),
                   (''units'', JDict [(''USD'', JList [])])]"
  let ?groups = "[?dei, (''us-gaap'', JDict [(''Assets'', ?assets)])]"
  have f: "facts_groups apple_facts = Some ?groups"
    by (simp add: facts_groups_def apple_facts_def)
  have a: "\<forall>g\<in>set ?groups. \<not> has_field (snd g) ''Liabilities''" by simp
  have b: "?groups = [?dei] @ (''us-gaap'', JDict [(''Assets'', ?assets)]) # []
      \<and> (\<forall>g\<in>set [?dei]. \<not> has_field (snd g) ''Assets'')
      \<and> map_of [(''Assets'', ?assets)] ''Assets'' = Some ?assets" by simp
  from get_first_group_or_none[OF f, of "''Liabilities''"] a
  have 1: "get apple_facts ''Liabilities'' = Inr None" by blast
  from get_first_group_or_none[OF f, of "''Assets''" "[?dei]" "''us-gaap''" "[(''Assets'', ?assets)]" "[]" ?assets] b
  have 2: "get apple_facts ''Assets'' = Inr (Some (Field ''us-gaap'' ''Assets'' ?assets))"
    by blast
  from 1 2 show ?thesis by blast
qed

subsection \<open>Writing to the disk\<close>

lemma children_update:
  "children (AList.update p v disk) d =
     (if p \<in> fst ` set disk then children disk d
      else if p \<noteq> [] \<and> butlast p = d then children disk d @ [last p]
      else children disk d)"
  by (induction disk) (auto simp: children_def)


lemma children_nonempty_iff:
  "children disk d \<noteq> [] \<longleftrightarrow> (\<exists>p\<in>fst ` set disk. p \<noteq> [] \<and> butlast p = d)"
  by (auto simp: children_def filter_empty_conv)

lemma write_file_Inr:
  "write_file p c disk = Inr disk' \<Longrightarrow>
     disk' = AList.update p (File c) disk \<and> map_of disk p \<noteq> Some Dir
     \<and> map_of disk (butlast p) = Some Dir"
  by (auto simp: write_file_def split: option.splits node.splits)

lemma write_file_map_of:
  "write_file p c disk = Inr disk' \<Longrightarrow> map_of disk' = (map_of disk)(p \<mapsto> File c)"
  by (auto dest!: write_file_Inr simp: update_conv')

lemma write_file_keys:
  "write_file p c disk = Inr disk' \<Longrightarrow> fst ` set disk' = insert p (fst ` set disk)"
proof -
  assume "write_file p c disk = Inr disk'"
  then have "disk' = AList.update p (File c) disk" by (simp add: write_file_Inr)
  then show ?thesis by (simp add: dom_update)
qed

lemma write_file_children_other:
  "write_file p c disk = Inr disk' \<Longrightarrow> butlast p \<noteq> d \<Longrightarrow> children disk' d = children disk d"
  by (auto dest!: write_file_Inr simp: children_update)

lemma listdir_Inr:
  "listdir disk d = Inr names \<longleftrightarrow> map_of disk d = Some Dir \<and> names = children disk d"
  by (auto simp: listdir_def split: option.splits node.splits)

subsection \<open>Extraction into a folder\<close>

lemma extractall_keys:
  "extractall ms folder_path disk = (Inr (), disk') \<Longrightarrow>
     fst ` set disk \<subseteq> fst ` set disk' \<and> (\<forall>m\<in>set ms. folder_path @ [fst m] \<in> fst ` set disk')
     \<and> map_of disk' folder_path = map_of disk folder_path"
proof (induction ms arbitrary: disk)
  case Nil
  then show ?case by simp
next
  case (Cons m ms)
  from Cons.prems obtain disk1 where w: "write_file (folder_path @ [fst m]) (snd m) disk = Inr disk1"
    and r: "extractall ms folder_path disk1 = (Inr (), disk')"
    by (auto split: sum.splits)
  from write_file_keys[OF w] write_file_map_of[OF w] Cons.IH[OF r] show ?case by auto
qed

lemma extract_if_empty_skips:
  "listdir disk folder_path = Inr names \<Longrightarrow> names \<noteq> [] \<Longrightarrow>
     extract_if_empty zip_path folder_path disk = (Inr (), disk)"
  by (simp add: extract_if_empty_def)

lemma extract_if_empty_twice:
  assumes "extract_if_empty zip_path folder_path disk = (Inr (), disk1)"
  shows "extract_if_empty zip_path folder_path disk1 = (Inr (), disk1)"
proof -
  from assms obtain names where l: "listdir disk folder_path = Inr names"
    by (auto simp: extract_if_empty_def split: sum.splits)
  show ?thesis
  proof (cases "names = []")
    case False
    with assms l have "disk1 = disk" by (simp add: extract_if_empty_def)
    with assms show ?thesis by simp
  next
    case True
    with assms l obtain ms where z: "open_read disk zip_path = Inr (Archive ms)"
      and x: "extractall ms folder_path disk = (Inr (), disk1)"
      by (auto simp: extract_if_empty_def split: sum.splits content.splits)
    show ?thesis
    proof (cases ms)
      case Nil
      with x have "disk1 = disk" by simp
      with assms show ?thesis by simp
    next
      case (Cons m ms')
      from extractall_keys[OF x] Cons
      have k: "folder_path @ [fst m] \<in> fst ` set disk1" by simp
      have "folder_path @ [fst m] \<noteq> [] \<and> butlast (folder_path @ [fst m]) = folder_path"
        by simp
      with k have "children disk1 folder_path \<noteq> []"
        unfolding children_nonempty_iff by blast
      moreover from extractall_keys[OF x] l have "map_of disk1 folder_path = Some Dir"
        by (simp add: listdir_Inr)
      ultimately show ?thesis by (simp add: extract_if_empty_def listdir_def)
    qed
  qed
qed

lemma download_frame:
  assumes "download resp zip_path disk = (r, disk')" and "butlast zip_path \<noteq> d"
    and "map_of disk d = Some Dir"
  shows "children disk' d = children disk d \<and> map_of disk' d = Some Dir
     \<and> (\<forall>nm. map_of disk' (d @ [nm]) = map_of disk (d @ [nm]))"
proof (cases "disk' = disk")
  case True
  with assms(3) show ?thesis by simp
next
  case False
  with assms(1) obtain c where w: "write_file zip_path c disk = Inr disk'"
    by (auto simp: download_def split: response.splits sum.splits)
  from write_file_Inr[OF w] assms(3) have ne: "zip_path \<noteq> d" by auto
  have "d @ [nm] \<noteq> zip_path" for nm using assms(2) by auto
  with write_file_map_of[OF w] write_file_children_other[OF w assms(2)] ne assms(3)
  show ?thesis by simp
qed

text \<open>
  Claim C7. Lines 130 to 132 on a folder that holds at least one entry extract nothing and
  leave the disk as it is; a second call after a first one that returned leaves the disk
  exactly as the first call left it; and the whole of \<^verbatim>\<open>process_zip\<close> on a populated
  folder (its archive file lying outside the folder) leaves the folder's listing and every
  entry of the folder unchanged, whatever the server answers.
\<close>

theorem extract_skipped_when_populated:
  "(listdir disk folder_path = Inr names \<and> names \<noteq> [] \<longrightarrow>
      extract_if_empty zip_path folder_path disk = (Inr (), disk))
   \<and> (extract_if_empty zip_path folder_path disk = (Inr (), disk1) \<longrightarrow>
      extract_if_empty zip_path folder_path disk1 = (Inr (), disk1))
   \<and> (listdir disk folder_path = Inr names \<and> names \<noteq> [] \<and> butlast zip_path \<noteq> folder_path
        \<and> process_zip srv url zip_path folder_path disk = (r, disk2) \<longrightarrow>
      listdir disk2 folder_path = Inr names
      \<and> (\<forall>nm. map_of disk2 (folder_path @ [nm]) = map_of disk (folder_path @ [nm])))"
proof (intro conjI impI)
  assume "listdir disk folder_path = Inr names \<and> names \<noteq> []"
  then show "extract_if_empty zip_path folder_path disk = (Inr (), disk)"
    by (simp add: extract_if_empty_skips)
next
  assume "extract_if_empty zip_path folder_path disk = (Inr (), disk1)"
  then show "extract_if_empty zip_path folder_path disk1 = (Inr (), disk1)"
    by (rule extract_if_empty_twice)
next
  assume a: "listdir disk folder_path = Inr names \<and> names \<noteq> [] \<and> butlast zip_path \<noteq> folder_path
        \<and> process_zip srv url zip_path folder_path disk = (r, disk2)"
  obtain r1 disk1 where d: "download (srv url) zip_path disk = (r1, disk1)" by force
  from a have dir: "map_of disk folder_path = Some Dir" and n: "names = children disk folder_path"
    by (simp_all add: listdir_Inr)
  from a have bl: "butlast zip_path \<noteq> folder_path" by simp
  note f = download_frame[OF d bl dir]
  from f n have l1: "listdir disk1 folder_path = Inr names" by (simp add: listdir_Inr)
  from a have "names \<noteq> []" by simp
  from extract_if_empty_skips[OF l1 this] a d have "disk2 = disk1"
    by (auto simp: process_zip_def split: sum.splits)
  with f l1 show "listdir disk2 folder_path = Inr names" by simp
  from \<open>disk2 = disk1\<close> f
  show "\<forall>nm. map_of disk2 (folder_path @ [nm]) = map_of disk (folder_path @ [nm])" by simp
qed

text \<open>The definitions a run on a concrete disk unfolds.\<close>

lemmas eval_disk = write_file_def listdir_def children_def open_read_def extract_if_empty_def
  download_def process_zip_def isfile_def rename_file_def

lemmas eval_example = zipped_disk_def extracted_disk_def fresh_disk_def example_server_def
  example_env_def example_edgar_def SUBMISSION_URL_def COMPANY_FACTS_URL_def

theorem extract_skipped_when_populated_witness:
  "extract_if_empty [''data'', ''submissions.zip''] [''data'', ''submissions''] zipped_disk
     = (Inr (), extracted_disk)
   \<and> extract_if_empty [''data'', ''submissions.zip''] [''data'', ''submissions''] extracted_disk
     = (Inr (), extracted_disk)
   \<and> listdir (snd (process_zip example_server SUBMISSION_URL [''data'', ''submissions.zip'']
                    [''data'', ''submissions''] extracted_disk)) [''data'', ''submissions'']
     = Inr [''CIK0000320193.json'', ''CIK0001018724.json'', ''CIK0000000001.json'']"
proof -
  let ?z = "[''data'', ''submissions.zip'']" and ?f = "[''data'', ''submissions'']"
  let ?names = "[''CIK0000320193.json'', ''CIK0001018724.json'', ''CIK0000000001.json'']"
  have first: "extract_if_empty ?z ?f zipped_disk = (Inr (), extracted_disk)"
    by (simp add: eval_disk eval_example three_members_def)
  have l: "listdir extracted_disk ?f = Inr ?names \<and> ?names \<noteq> []"
    by (simp add: eval_disk eval_example three_members_def)
  have b: "butlast ?z \<noteq> ?f" by simp
  obtain r disk2 where p: "process_zip example_server SUBMISSION_URL ?z ?f extracted_disk = (r, disk2)"
    by force
  from extract_skipped_when_populated[of zipped_disk ?f _ ?z extracted_disk] first
  have 1: "extract_if_empty ?z ?f extracted_disk = (Inr (), extracted_disk)" by blast
  from extract_skipped_when_populated[of extracted_disk ?f ?names ?z _ example_server SUBMISSION_URL r disk2]
    l b p
  have "listdir disk2 ?f = Inr ?names" by blast
  with p have 2: "listdir (snd (process_zip example_server SUBMISSION_URL ?z ?f extracted_disk)) ?f
     = Inr ?names" by simp
  from first 1 2 show ?thesis by blast
qed

subsection \<open>What the steps of the build leave alone\<close>









text \<open>The paths of the object.\<close>

lemmas paths = company_facts_def submissions_def summaries_def ticker_cik_map_path_def
  company_cik_map_path_def summary_path_def company_zip_def submission_zip_def





subsection \<open>A build that fails\<close>





text \<open>The definitions a run of the build unfolds.\<close>

lemmas eval_build = scan_phase_def rotate_summary_def build_def persist_def write_summary_def
  index_files_def partition_files_def format_value_def getsize_def total_size_def
  dumps_index_def key_str_def paths


subsection \<open>A build that returns\<close>






subsection \<open>The build on the three files\<close>

lemmas eval_built = downloaded_disk_def indexed_edgar_def persisted_indices_def
  example_summary_def built_once_def built_twice_def apple_facts_def

lemmas eval_scan = chunks_def py_range_def slice_def as_completed_def sublist_code(3)
  upt_conv_Cons

text \<open>
  Claim C1, at the failing input. On the three files of the scenario and the default worker
  count 8, line 47 computes the chunk size \<open>3 div 8 = 0\<close> and \<^verbatim>\<open>range(0, 3, 0)\<close> raises
  \<^verbatim>\<open>ValueError\<close> (line 49): the build fails after the archives were fetched and extracted,
  and no index is written.
\<close>

theorem build_default_workers:
  "build (example_env ''2024-01-01T09:00:00'') 8 example_edgar fresh_disk
     = (Inl ValueError, example_edgar, downloaded_disk)"
  by (simp add: eval_build eval_disk eval_example eval_three eval_built eval_scan)




subsection \<open>Builds that fail, on the example\<close>





text \<open>
  Claim C2, at the failing input. The submissions folder holds two well-formed records and
  one file that is not valid JSON; with the default worker count 8 the scan of lines 46 to
  53 raises \<^verbatim>\<open>ValueError\<close> (the chunk size is \<open>3 div 8 = 0\<close>, the step of \<^verbatim>\<open>range\<close>), so
  the index build does not succeed.
\<close>

theorem index_files_default_workers:
  "listdir downloaded_disk (submissions example_edgar)
     = Inr [''CIK0000320193.json'', ''CIK0001018724.json'', ''CIK0000000001.json'']
   \<and> open_read downloaded_disk (submissions example_edgar @ [''CIK0000320193.json'']) = Inr apple
   \<and> is_submission apple ''320193'' ''Apple Inc.'' [''AAPL'']
   \<and> open_read downloaded_disk (submissions example_edgar @ [''CIK0001018724.json'']) = Inr amazon
   \<and> is_submission amazon ''1018724'' ''Amazon.com Inc.'' [''AMZN'', ''AMZN.B'']
   \<and> open_read downloaded_disk (submissions example_edgar @ [''CIK0000000001.json'']) = Inr broken
   \<and> json_load broken = Inl JSONDecodeError
   \<and> index_files (example_env ''2024-01-01T09:00:00'') 8 example_edgar downloaded_disk
       = (Inl ValueError, example_edgar)"
  by (simp add: eval_build eval_disk eval_example eval_three eval_built eval_scan)

text \<open>With three workers the same scan returns, with the maps of the two well-formed
  records.\<close>

lemma index_files_three_workers:
  "index_files (example_env ''2024-01-01T09:00:00'') 3 example_edgar downloaded_disk
     = (Inr (), indexed_edgar)"
  by (simp add: eval_build eval_disk eval_example eval_three eval_built eval_scan eval_gather
      numeral_eq_Suc)

end
